theory Spec2Isabelle
  imports Main "HOL-Library.Word"
begin

section \<open>PGOMemOPSizeOpt: size specialisation of memory operations from value profiles\<close>

text \<open>
  A shallow embedding of \<^verbatim>\<open>llvm/lib/Transforms/Instrumentation/PGOMemOPSizeOpt.cpp\<close>.
  Counts are \<^verbatim>\<open>uint64_t\<close>, the options of type \<^verbatim>\<open>unsigned\<close> are 32-bit words,
  and every arithmetic operation on them is the machine's (it wraps around).
  An \<^verbatim>\<open>assert\<close> that fails and a division by zero are values of \<open>error\<close>.
\<close>

unbundle bit_operations_syntax

type_synonym u64 = "64 word"
type_synonym u32 = "32 word"

datatype error = AssertionFailure | DivisionByZero

subsection \<open>Options\<close>

text \<open>
  The \<^verbatim>\<open>cl::opt\<close> globals the pass reads, as one record. \<open>PreciseRangeLast\<close> is the
  member the constructor fills from \<^verbatim>\<open>MemOPSizeRange\<close>. \<open>InstrProfIsSingleValRange\<close>
  comes from \<^verbatim>\<open>InstrProfData.inc\<close>, which is not part of the sources at hand: it is a
  parameter here.
\<close>

record config =
  MemOPCountThreshold :: u32
  DisableMemOPOPT :: bool
  MemOPPercentThreshold :: u32
  MemOPMaxVersion :: u32
  MemOPScaleCount :: bool
  MemOPSizeLarge :: u32
  UseOldMemOpValueProf :: bool
  MemOPOptMemcmpBcmp :: bool
  MemOpMaxOptSize :: u32
  PreciseRangeLast :: u64
  InstrProfIsSingleValRange :: "u64 \<Rightarrow> bool"

subsection \<open>Profile records\<close>

record InstrProfValueData =
  Value :: u64
  Count :: u64

datatype InstrProfValueKind = IPVK_IndirectCallTarget | IPVK_MemOPSize

record value_profile =
  Kind :: InstrProfValueKind
  TotalC :: u64
  ValueData :: "InstrProfValueData list"

subsection \<open>The value-kind filter, profitability and scaling\<close>

datatype MemOPSizeKind = PreciseValue | NonLargeGroup | LargeGroup

text \<open>\<^verbatim>\<open>Value\<close> is an \<^verbatim>\<open>int64_t\<close>; comparing it for equality with an
  \<^verbatim>\<open>unsigned\<close> option zero-extends the option.\<close>

definition getMemOPSizeKind :: "config \<Rightarrow> u64 \<Rightarrow> MemOPSizeKind" where
  "getMemOPSizeKind cfg V =
     (if V = ucast (MemOPSizeLarge cfg) \<and> MemOPSizeLarge cfg \<noteq> 0 then LargeGroup
      else if V = PreciseRangeLast cfg + 1 then NonLargeGroup
      else PreciseValue)"

text \<open>The test of lines 382 to 387 that makes the loop \<^verbatim>\<open>continue\<close>. The comparison
  \<^verbatim>\<open>V > MemOpMaxOptSize\<close> is a signed one, on \<^verbatim>\<open>int64_t\<close>.\<close>

definition skipped :: "config \<Rightarrow> u64 \<Rightarrow> bool" where
  "skipped cfg V =
     (if UseOldMemOpValueProf cfg then getMemOPSizeKind cfg V \<noteq> PreciseValue
      else \<not> InstrProfIsSingleValRange cfg V \<or> uint (MemOpMaxOptSize cfg) < sint V)"

definition isProfitable :: "config \<Rightarrow> u64 \<Rightarrow> u64 \<Rightarrow> error + bool" where
  "isProfitable cfg count total_count =
     (if \<not> count \<le> total_count then Inl AssertionFailure
      else if count < ucast (MemOPCountThreshold cfg) then Inr False
      else if count < total_count * ucast (MemOPPercentThreshold cfg) div 100 then Inr False
      else Inr True)"

text \<open>Modelled from the spec: \<^verbatim>\<open>SaturatingMultiply\<close> of \<^verbatim>\<open>MathExtras.h\<close> is not in the
  sources at hand. The product, or the largest 64-bit value when the product does not
  fit.\<close>

definition SaturatingMultiply :: "u64 \<Rightarrow> u64 \<Rightarrow> u64" where
  "SaturatingMultiply X Y = (if unat X * unat Y < 2 ^ 64 then X * Y else - 1)"

definition getScaledCount :: "config \<Rightarrow> u64 \<Rightarrow> u64 \<Rightarrow> u64 \<Rightarrow> error + u64" where
  "getScaledCount cfg count Num Denom =
     (if \<not> MemOPScaleCount cfg then Inr count
      else if Denom = 0 then Inl DivisionByZero
      else Inr (SaturatingMultiply count Num div Denom))"

subsection \<open>The planning loop of \<^verbatim>\<open>perform\<close> (lines 367 to 406)\<close>

text \<open>The local variables of the loop. \<open>Version\<close> counts at most one per profile
  record read, and fewer than \<open>2 ^ 32\<close> are read, so it is a natural number.\<close>

record plan =
  RemainCount :: u64
  SavedRemainCount :: u64
  SizeIds :: "u64 list"
  CaseCounts :: "u64 list"
  MaxCount :: u64
  Version :: nat

definition plan_init :: "u64 \<Rightarrow> u64 \<Rightarrow> plan" where
  "plan_init TotalCount SavedTotalCount =
     \<lparr>RemainCount = TotalCount, SavedRemainCount = SavedTotalCount, SizeIds = [],
      CaseCounts = [0], MaxCount = 0, Version = 0\<rparr>"

text \<open>What lines 394 to 402 do to the variables once a record is accepted, the
  increment of \<open>Version\<close> of line 404 included.\<close>

definition accept :: "u64 \<Rightarrow> u64 \<Rightarrow> u64 \<Rightarrow> plan \<Rightarrow> plan" where
  "accept V C raw s =
     s\<lparr>SizeIds := SizeIds s @ [V],
       CaseCounts := CaseCounts s @ [C],
       MaxCount := (if MaxCount s < C then C else MaxCount s),
       RemainCount := RemainCount s - C,
       SavedRemainCount := SavedRemainCount s - raw,
       Version := Suc (Version s)\<rparr>"

fun plan_loop :: "config \<Rightarrow> u64 \<Rightarrow> u64 \<Rightarrow> InstrProfValueData list \<Rightarrow> plan \<Rightarrow> error + plan" where
  "plan_loop cfg ActualCount SavedTotalCount [] s = Inr s"
| "plan_loop cfg ActualCount SavedTotalCount (VD # VDs) s =
     (case (if MemOPScaleCount cfg
            then getScaledCount cfg (Count VD) ActualCount SavedTotalCount
            else Inr (Count VD)) of
        Inl e \<Rightarrow> Inl e
      | Inr C \<Rightarrow>
          if skipped cfg (Value VD) then plan_loop cfg ActualCount SavedTotalCount VDs s
          else (case isProfitable cfg C (RemainCount s) of
                  Inl e \<Rightarrow> Inl e
                | Inr False \<Rightarrow> Inr s
                | Inr True \<Rightarrow>
                    if \<not> C \<le> RemainCount s then Inl AssertionFailure
                    else if \<not> Count VD \<le> SavedRemainCount s then Inl AssertionFailure
                    else let s' = accept (Value VD) C (Count VD) s in
                      if unat (MemOPMaxVersion cfg) < Version s' \<and> MemOPMaxVersion cfg \<noteq> 0
                      then Inr s'
                      else plan_loop cfg ActualCount SavedTotalCount VDs s'))"

subsection \<open>The intermediate representation\<close>

text \<open>
  Blocks and instructions live in a store: a \<^verbatim>\<open>BasicBlock*\<close> or an \<^verbatim>\<open>Instruction*\<close>
  is an address (a natural number), and creating one takes the next free address.
  A \<^verbatim>\<open>Value*\<close> is an instruction, an integer constant or something else (an argument,
  a global). An instruction has its class as far as the pass inspects it, its operands,
  the incoming blocks when it is a phi node, whether its type is void, its
  \<^verbatim>\<open>MD_prof\<close> value profile and its parent block. For a call that is not a memory
  intrinsic the class holds what \<^verbatim>\<open>TLI.getLibFunc\<close> answers for it.
  The terminator of a block is kept apart from its other instructions.
  Block names, debug output, statistics and the identifier that \<^verbatim>\<open>setID\<close> gives a
  clone are left out.
\<close>

datatype val = Inst nat | ConstantInt u64 | OtherValue nat

datatype IntrinsicID = Intrinsic_memcpy | Intrinsic_memmove | Intrinsic_memset | Intrinsic_other

datatype LibFunc = LibFunc_memcmp | LibFunc_bcmp | LibFunc_other

datatype inst_class = MemIntrinsic IntrinsicID | CallInst "LibFunc option" | PHINode | OtherInst

record instruction =
  iclass :: inst_class
  operands :: "val list"
  incoming_blocks :: "nat list"
  isVoidTy :: bool
  MD_prof :: "value_profile option"
  Parent :: nat

text \<open>A switch holds its condition, its default destination, its cases in the order
  they were added, and the branch weights once \<^verbatim>\<open>setProfMetadata\<close> has run.\<close>

datatype terminator =
    Br nat
  | Switch val nat "(u64 \<times> nat) list" "(u64 list \<times> u64) option"
  | OtherTerminator "val list" "nat list"

record basic_block =
  BBInsts :: "nat list"
  Terminator :: terminator

record remark =
  Memop :: nat
  Covered :: u64
  Total :: u64
  Versions :: nat

text \<open>The function together with the analyses the pass holds references to: the block
  frequencies and profile counts of \<^verbatim>\<open>BlockFrequencyInfo\<close>, whether a dominator tree is
  there and the edge insertions it was sent, and the remarks emitted.\<close>

record func =
  Insts :: "nat \<Rightarrow> instruction"
  Blocks :: "nat \<Rightarrow> basic_block"
  Layout :: "nat list"
  next_inst :: nat
  next_block :: nat
  OptimizeForSize :: bool
  BlockFreq :: "nat \<Rightarrow> u64"
  BlockProfileCount :: "nat \<Rightarrow> u64 option"
  DT :: bool
  DomUpdates :: "(nat \<times> nat) list"
  Remarks :: "remark list"

subsection \<open>\<^verbatim>\<open>struct MemOp\<close>\<close>

text \<open>A \<^verbatim>\<open>MemOp\<close> wraps a memory intrinsic or a call, and is never null: here it is the
  address of the instruction. \<^verbatim>\<open>asMI\<close> succeeds on the class \<open>MemIntrinsic\<close>.\<close>

definition getArgOperand :: "instruction \<Rightarrow> nat \<Rightarrow> error + val" where
  "getArgOperand I n = (if n < length (operands I) then Inr (operands I ! n) else Inl AssertionFailure)"

text \<open>\<^verbatim>\<open>asCI\<close> is a \<^verbatim>\<open>cast\<close>: it fails on what is not a call.\<close>

definition getLength :: "instruction \<Rightarrow> error + val" where
  "getLength I =
     (case iclass I of
        MemIntrinsic _ \<Rightarrow> getArgOperand I 2
      | CallInst _ \<Rightarrow> getArgOperand I 2
      | _ \<Rightarrow> Inl AssertionFailure)"

definition setLength :: "val \<Rightarrow> instruction \<Rightarrow> instruction" where
  "setLength L I = I\<lparr>operands := (operands I)[2 := L]\<rparr>"

definition isMemmove :: "instruction \<Rightarrow> bool" where
  "isMemmove I = (iclass I = MemIntrinsic Intrinsic_memmove)"

definition isMemcmp :: "instruction \<Rightarrow> bool" where
  "isMemcmp I = (iclass I = CallInst (Some LibFunc_memcmp))"

definition isBcmp :: "instruction \<Rightarrow> bool" where
  "isBcmp I = (iclass I = CallInst (Some LibFunc_bcmp))"

definition isConstantInt :: "val \<Rightarrow> bool" where
  "isConstantInt v = (case v of ConstantInt _ \<Rightarrow> True | _ \<Rightarrow> False)"

subsection \<open>The candidate collector (lines 257 to 272)\<close>

definition visitMemIntrinsic :: "nat list \<Rightarrow> func \<Rightarrow> nat \<Rightarrow> error + nat list" where
  "visitMemIntrinsic WorkList F MI =
     (case getLength (Insts F MI) of
        Inl e \<Rightarrow> Inl e
      | Inr L \<Rightarrow> if isConstantInt L then Inr WorkList else Inr (WorkList @ [MI]))"

definition visitCallInst :: "nat list \<Rightarrow> func \<Rightarrow> nat \<Rightarrow> error + nat list" where
  "visitCallInst WorkList F CI =
     (if iclass (Insts F CI) = CallInst (Some LibFunc_memcmp) \<or>
         iclass (Insts F CI) = CallInst (Some LibFunc_bcmp)
      then (case getArgOperand (Insts F CI) 2 of
              Inl e \<Rightarrow> Inl e
            | Inr L \<Rightarrow> if \<not> isConstantInt L then Inr (WorkList @ [CI]) else Inr WorkList)
      else Inr WorkList)"

text \<open>\<^verbatim>\<open>visit(Func)\<close> of \<^verbatim>\<open>InstVisitor\<close>: every instruction of every block, in
  order; a memory intrinsic goes to \<open>visitMemIntrinsic\<close>, any other call to
  \<open>visitCallInst\<close>.\<close>

fun visit_insts :: "nat list \<Rightarrow> func \<Rightarrow> nat list \<Rightarrow> error + nat list" where
  "visit_insts WorkList F [] = Inr WorkList"
| "visit_insts WorkList F (I # Is) =
     (case (case iclass (Insts F I) of
              MemIntrinsic _ \<Rightarrow> visitMemIntrinsic WorkList F I
            | CallInst _ \<Rightarrow> visitCallInst WorkList F I
            | _ \<Rightarrow> Inr WorkList) of
        Inl e \<Rightarrow> Inl e
      | Inr WorkList' \<Rightarrow> visit_insts WorkList' F Is)"

fun visit_blocks :: "nat list \<Rightarrow> func \<Rightarrow> nat list \<Rightarrow> error + nat list" where
  "visit_blocks WorkList F [] = Inr WorkList"
| "visit_blocks WorkList F (BB # BBs) =
     (case visit_insts WorkList F (BBInsts (Blocks F BB)) of
        Inl e \<Rightarrow> Inl e
      | Inr WorkList' \<Rightarrow> visit_blocks WorkList' F BBs)"

definition visit :: "func \<Rightarrow> error + nat list" where
  "visit F = visit_blocks [] F (Layout F)"

subsection \<open>Primitives of the library the rewrite calls\<close>

text \<open>Modelled from the spec: \<^verbatim>\<open>getValueProfDataFromInst\<close> and \<^verbatim>\<open>annotateValueSite\<close> of
  \<^verbatim>\<open>InstrProf.cpp\<close> are not in the sources at hand. The profile metadata is an ordered
  list of (value, count) entries and a total under a profile kind; reading gives at
  most \<open>MaxNumValueData\<close> entries and the total, and nothing when there is no record of
  that kind; writing stores at most \<open>MaxMDCount\<close> entries and the given total.\<close>

definition getValueProfDataFromInst ::
  "instruction \<Rightarrow> InstrProfValueKind \<Rightarrow> nat \<Rightarrow> (InstrProfValueData list \<times> u64) option" where
  "getValueProfDataFromInst I ValueKind MaxNumValueData =
     (case MD_prof I of
        None \<Rightarrow> None
      | Some MD \<Rightarrow> if Kind MD \<noteq> ValueKind then None
                   else Some (take MaxNumValueData (ValueData MD), TotalC MD))"

definition setMetadata :: "func \<Rightarrow> nat \<Rightarrow> value_profile option \<Rightarrow> func" where
  "setMetadata F I MD = F\<lparr>Insts := (Insts F)(I := (Insts F I)\<lparr>MD_prof := MD\<rparr>)\<rparr>"

definition annotateValueSite ::
  "func \<Rightarrow> nat \<Rightarrow> InstrProfValueData list \<Rightarrow> u64 \<Rightarrow> InstrProfValueKind \<Rightarrow> nat \<Rightarrow> func" where
  "annotateValueSite F I VDs SumC ValueKind MaxMDCount =
     setMetadata F I (Some \<lparr>Kind = ValueKind, TotalC = SumC, ValueData = take MaxMDCount VDs\<rparr>)"

text \<open>Modelled from the spec: \<^verbatim>\<open>SplitBlock\<close> of \<^verbatim>\<open>BasicBlockUtils\<close> is not in the sources
  at hand. It splits a block before the instruction at a position: the instructions
  from there on and the terminator move to a new block, placed right after the old one,
  and the old block ends in a branch to the new one. What it does to the dominator tree
  and to the phi nodes of the successors of the old block is not modelled.\<close>

fun insert_after :: "nat \<Rightarrow> nat \<Rightarrow> nat list \<Rightarrow> nat list" where
  "insert_after a n [] = [n]"
| "insert_after a n (x # xs) = (if x = a then x # n # xs else x # insert_after a n xs)"

fun insert_before :: "nat \<Rightarrow> nat \<Rightarrow> nat list \<Rightarrow> nat list" where
  "insert_before a n [] = [n]"
| "insert_before a n (x # xs) = (if x = a then n # x # xs else x # insert_before a n xs)"

definition SplitBlock :: "func \<Rightarrow> nat \<Rightarrow> nat \<Rightarrow> func \<times> nat" where
  "SplitBlock F BB pos =
     (let New = next_block F;
          Old = Blocks F BB;
          moved = drop pos (BBInsts Old)
      in (F\<lparr>Blocks := (Blocks F)
                (BB := \<lparr>BBInsts = take pos (BBInsts Old), Terminator = Br New\<rparr>,
                 New := \<lparr>BBInsts = moved, Terminator = Terminator Old\<rparr>),
            Insts := (\<lambda>i. if i \<in> set moved then (Insts F i)\<lparr>Parent := New\<rparr> else Insts F i),
            Layout := insert_after BB New (Layout F),
            next_block := Suc New\<rparr>, New))"

definition position :: "nat \<Rightarrow> nat list \<Rightarrow> nat" where
  "position I Is = length (takeWhile (\<lambda>i. i \<noteq> I) Is)"

text \<open>Modelled from the spec: the block frequency analysis is external.
  \<^verbatim>\<open>getBlockProfileCount\<close> is an oracle that may have no answer; \<^verbatim>\<open>setBlockFreq\<close> records
  a frequency for a block.\<close>

definition setBlockFreq :: "func \<Rightarrow> nat \<Rightarrow> u64 \<Rightarrow> func" where
  "setBlockFreq F BB Freq = F\<lparr>BlockFreq := (BlockFreq F)(BB := Freq)\<rparr>"

text \<open>Modelled from the spec: the builder and use-list primitives of the IR library.
  \<^verbatim>\<open>CreateSwitch\<close> after erasing the terminator leaves a switch with no case;
  \<^verbatim>\<open>CreatePHI\<close> at \<^verbatim>\<open>getFirstNonPHI\<close> puts an empty phi node after the phi nodes of the
  block; \<^verbatim>\<open>replaceAllUsesWith\<close> rewrites every operand, of instructions and of
  terminators, that is the old value.\<close>

definition CreateSwitch :: "func \<Rightarrow> nat \<Rightarrow> val \<Rightarrow> nat \<Rightarrow> func" where
  "CreateSwitch F BB V Dest =
     F\<lparr>Blocks := (Blocks F)(BB := (Blocks F BB)\<lparr>Terminator := Switch V Dest [] None\<rparr>)\<rparr>"

definition CreatePHI :: "func \<Rightarrow> nat \<Rightarrow> func \<times> nat" where
  "CreatePHI F BB =
     (let P = next_inst F;
          isPHI = (\<lambda>i. iclass (Insts F i) = PHINode);
          B = Blocks F BB
      in (F\<lparr>Insts := (Insts F)
                (P := \<lparr>iclass = PHINode, operands = [], incoming_blocks = [],
                       isVoidTy = False, MD_prof = None, Parent = BB\<rparr>),
            Blocks := (Blocks F)
                (BB := B\<lparr>BBInsts := takeWhile isPHI (BBInsts B) @ [P] @ dropWhile isPHI (BBInsts B)\<rparr>),
            next_inst := Suc P\<rparr>, P))"

definition subst_val :: "val \<Rightarrow> val \<Rightarrow> val \<Rightarrow> val" where
  "subst_val Old New v = (if v = Old then New else v)"

fun subst_term :: "val \<Rightarrow> val \<Rightarrow> terminator \<Rightarrow> terminator" where
  "subst_term Old New (Br d) = Br d"
| "subst_term Old New (Switch c d cs w) = Switch (subst_val Old New c) d cs w"
| "subst_term Old New (OtherTerminator vs ds) = OtherTerminator (map (subst_val Old New) vs) ds"

definition replaceAllUsesWith :: "func \<Rightarrow> val \<Rightarrow> val \<Rightarrow> func" where
  "replaceAllUsesWith F Old New =
     F\<lparr>Insts := (\<lambda>i. (Insts F i)\<lparr>operands := map (subst_val Old New) (operands (Insts F i))\<rparr>),
       Blocks := (\<lambda>b. (Blocks F b)\<lparr>Terminator := subst_term Old New (Terminator (Blocks F b))\<rparr>)\<rparr>"

definition addIncoming :: "func \<Rightarrow> nat \<Rightarrow> val \<Rightarrow> nat \<Rightarrow> func" where
  "addIncoming F P V BB =
     F\<lparr>Insts := (Insts F)
         (P := (Insts F P)\<lparr>operands := operands (Insts F P) @ [V],
                          incoming_blocks := incoming_blocks (Insts F P) @ [BB]\<rparr>)\<rparr>"

fun addCase_term :: "u64 \<Rightarrow> nat \<Rightarrow> terminator \<Rightarrow> terminator" where
  "addCase_term c d (Switch v dflt cs w) = Switch v dflt (cs @ [(c, d)]) w"
| "addCase_term c d t = t"

definition addCase :: "func \<Rightarrow> nat \<Rightarrow> u64 \<Rightarrow> nat \<Rightarrow> func" where
  "addCase F BB c Dest =
     F\<lparr>Blocks := (Blocks F)(BB := (Blocks F BB)\<lparr>Terminator := addCase_term c Dest (Terminator (Blocks F BB))\<rparr>)\<rparr>"

text \<open>Modelled from the spec: \<^verbatim>\<open>setProfMetadata\<close> of \<^verbatim>\<open>PGOInstrumentation.cpp\<close> is not in
  the sources at hand. It attaches to the switch the weights computed from the edge
  counts, normalised against the maximum count; the model records the two arguments.\<close>

fun setWeights_term :: "u64 list \<Rightarrow> u64 \<Rightarrow> terminator \<Rightarrow> terminator" where
  "setWeights_term cs m (Switch v dflt cases w) = Switch v dflt cases (Some (cs, m))"
| "setWeights_term cs m t = t"

definition setProfMetadata :: "func \<Rightarrow> nat \<Rightarrow> u64 list \<Rightarrow> u64 \<Rightarrow> func" where
  "setProfMetadata F BB EdgeCounts MaxC =
     F\<lparr>Blocks := (Blocks F)(BB := (Blocks F BB)\<lparr>Terminator := setWeights_term EdgeCounts MaxC (Terminator (Blocks F BB))\<rparr>)\<rparr>"

subsection \<open>The rewrite of \<^verbatim>\<open>perform\<close> (lines 411 to 520)\<close>

text \<open>Lines 437 to 456: the frequency of the block is read, the block is split before
  the call and again after it, the merge block is given the frequency read, and the
  head gets a switch on the size with the default block as its default.\<close>

definition rewrite_split :: "func \<Rightarrow> nat \<Rightarrow> val \<Rightarrow> func \<times> nat \<times> nat \<times> nat" where
  "rewrite_split F MO SizeVar =
     (let BB = Parent (Insts F MO);
          OrigBBFreq = BlockFreq F BB;
          (F1, DefaultBB) = SplitBlock F BB (position MO (BBInsts (Blocks F BB)));
          (F2, MergeBB) = SplitBlock F1 DefaultBB (Suc (position MO (BBInsts (Blocks F1 DefaultBB))));
          F3 = setBlockFreq F2 MergeBB OrigBBFreq;
          F4 = CreateSwitch F3 BB SizeVar DefaultBB
      in (F4, BB, DefaultBB, MergeBB))"

text \<open>Lines 457 to 465: the phi node for a call that returns a value.\<close>

definition rewrite_phi :: "func \<Rightarrow> nat \<Rightarrow> nat \<Rightarrow> nat \<Rightarrow> func \<times> nat option" where
  "rewrite_phi F MO DefaultBB MergeBB =
     (if \<not> isVoidTy (Insts F MO)
      then (let (Fa, P) = CreatePHI F MergeBB;
                Fb = replaceAllUsesWith Fa (Inst MO) (Inst P)
            in (addIncoming Fb P (Inst MO) DefaultBB, Some P))
      else (F, None))"

text \<open>Lines 467 to 473: the profile of the call is cleared, and the records that are
  left are written back.\<close>

definition rewrite_md :: "func \<Rightarrow> nat \<Rightarrow> InstrProfValueData list \<Rightarrow> plan \<Rightarrow> func" where
  "rewrite_md F MO VDs s =
     (let F1 = setMetadata F MO None
      in if 0 < SavedRemainCount s \<or> Version s \<noteq> length VDs
         then annotateValueSite F1 MO (drop (Version s) VDs) (SavedRemainCount s)
                IPVK_MemOPSize (length VDs)
         else F1)"

text \<open>Lines 481 to 502, one turn of the loop: a new block before the default block, a
  clone of the call in it with the size as a constant, a branch to the merge block, a
  case of the switch, an incoming value of the phi node, two edges for the dominator
  tree.\<close>

definition new_case ::
  "nat \<Rightarrow> nat \<Rightarrow> nat \<Rightarrow> nat \<Rightarrow> nat option \<Rightarrow> u64 \<Rightarrow> func \<times> (nat \<times> nat) list \<Rightarrow> func \<times> (nat \<times> nat) list" where
  "new_case MO BB DefaultBB MergeBB PHI SizeId FU =
     (let F = fst FU;
          Updates = snd FU;
          CaseBB = next_block F;
          NewMO = next_inst F;
          F1 = F\<lparr>Blocks := (Blocks F)(CaseBB := \<lparr>BBInsts = [NewMO], Terminator = Br MergeBB\<rparr>),
                 Insts := (Insts F)
                   (NewMO := setLength (ConstantInt SizeId) ((Insts F MO)\<lparr>Parent := CaseBB\<rparr>)),
                 Layout := insert_before DefaultBB CaseBB (Layout F),
                 next_block := Suc CaseBB,
                 next_inst := Suc NewMO\<rparr>;
          F2 = addCase F1 BB SizeId CaseBB;
          F3 = (case PHI of None \<Rightarrow> F2 | Some P \<Rightarrow> addIncoming F2 P (Inst NewMO) CaseBB)
      in (F3, if DT F then Updates @ [(CaseBB, MergeBB), (BB, CaseBB)] else Updates))"

fun case_loop ::
  "nat \<Rightarrow> nat \<Rightarrow> nat \<Rightarrow> nat \<Rightarrow> nat option \<Rightarrow> u64 list \<Rightarrow> func \<times> (nat \<times> nat) list \<Rightarrow> func \<times> (nat \<times> nat) list" where
  "case_loop MO BB DefaultBB MergeBB PHI [] FU = FU"
| "case_loop MO BB DefaultBB MergeBB PHI (SizeId # Ids) FU =
     case_loop MO BB DefaultBB MergeBB PHI Ids (new_case MO BB DefaultBB MergeBB PHI SizeId FU)"

text \<open>Lines 503 to 518: the edges are applied, the switch gets its weights and the
  remark is emitted.\<close>

definition rewrite_finish ::
  "func \<times> (nat \<times> nat) list \<Rightarrow> nat \<Rightarrow> nat \<Rightarrow> u64 list \<Rightarrow> u64 \<Rightarrow> u64 \<Rightarrow> u64 \<Rightarrow> nat \<Rightarrow> func" where
  "rewrite_finish FU MO BB CaseCounts' MaxCount' SumForOpt TotalCount Vers =
     (let F1 = (fst FU)\<lparr>DomUpdates := DomUpdates (fst FU) @ snd FU\<rparr>;
          F2 = setProfMetadata F1 BB CaseCounts' MaxCount'
      in F2\<lparr>Remarks := Remarks F2 @
               [\<lparr>Memop = MO, Covered = SumForOpt, Total = TotalCount, Versions = Vers\<rparr>]\<rparr>)"

definition perform_rewrite ::
  "func \<Rightarrow> nat \<Rightarrow> val \<Rightarrow> InstrProfValueData list \<Rightarrow> u64 \<Rightarrow> plan \<Rightarrow> func" where
  "perform_rewrite F MO SizeVar VDs TotalCount s =
     (let CaseCounts' = (CaseCounts s)[0 := RemainCount s];
          MaxCount' = (if MaxCount s < RemainCount s then RemainCount s else MaxCount s);
          SumForOpt = TotalCount - RemainCount s;
          (F4, BB, DefaultBB, MergeBB) = rewrite_split F MO SizeVar;
          (F5, PHI) = rewrite_phi F4 MO DefaultBB MergeBB;
          F7 = rewrite_md F5 MO VDs s;
          FU = case_loop MO BB DefaultBB MergeBB PHI (SizeIds s) (F7, [])
      in rewrite_finish FU MO BB CaseCounts' MaxCount' SumForOpt TotalCount (Version s))"

subsection \<open>\<^verbatim>\<open>MemOPSizeOpt::perform(MemOp)\<close> (lines 326 to 521)\<close>

text \<open>The result is whether the call was rewritten, with the function as it is
  afterwards. The size operand is read before the blocks are split; splitting does not
  touch the operands of the call.\<close>

definition perform :: "config \<Rightarrow> func \<Rightarrow> nat \<Rightarrow> error + bool \<times> func" where
  "perform cfg F MO =
     (let I = Insts F MO in
      if isMemmove I then Inr (False, F)
      else if \<not> MemOPOptMemcmpBcmp cfg \<and> (isMemcmp I \<or> isBcmp I) then Inr (False, F)
      else (case getValueProfDataFromInst I IPVK_MemOPSize (unat (MemOPMaxVersion cfg + 2)) of
              None \<Rightarrow> Inr (False, F)
            | Some (VDs, TotalCount) \<Rightarrow>
                (case (if MemOPScaleCount cfg then BlockProfileCount F (Parent I)
                       else Some TotalCount) of
                   None \<Rightarrow> Inr (False, F)
                 | Some ActualCount \<Rightarrow>
                     if ActualCount < ucast (MemOPCountThreshold cfg) then Inr (False, F)
                     else if TotalCount = 0 then Inr (False, F)
                     else (case plan_loop cfg ActualCount TotalCount VDs
                                  (plan_init ActualCount TotalCount) of
                             Inl e \<Rightarrow> Inl e
                           | Inr s \<Rightarrow>
                               if Version s = 0 then Inr (False, F)
                               else (case getLength I of
                                       Inl e \<Rightarrow> Inl e
                                     | Inr SizeVar \<Rightarrow>
                                         Inr (True, perform_rewrite F MO SizeVar VDs ActualCount s))))))"

subsection \<open>\<^verbatim>\<open>MemOPSizeOpt::perform()\<close> and \<^verbatim>\<open>PGOMemOPSizeOptImpl\<close>\<close>

fun perform_worklist :: "config \<Rightarrow> bool \<Rightarrow> func \<Rightarrow> nat list \<Rightarrow> error + bool \<times> func" where
  "perform_worklist cfg Changed F [] = Inr (Changed, F)"
| "perform_worklist cfg Changed F (MO # WorkList) =
     (case perform cfg F MO of
        Inl e \<Rightarrow> Inl e
      | Inr (b, F') \<Rightarrow> perform_worklist cfg (Changed \<or> b) F' WorkList)"

text \<open>The members of \<^verbatim>\<open>class MemOPSizeOpt\<close> that change: the function, the flag and
  the work list, which \<^verbatim>\<open>perform()\<close> clears, fills by \<^verbatim>\<open>visit\<close> and then walks.\<close>

record MemOPSizeOpt =
  Func :: func
  Changed :: bool
  WorkList :: "nat list"

definition perform_all :: "config \<Rightarrow> func \<Rightarrow> error + MemOPSizeOpt" where
  "perform_all cfg F =
     (case visit F of
        Inl e \<Rightarrow> Inl e
      | Inr WL \<Rightarrow>
          (case perform_worklist cfg False F WL of
             Inl e \<Rightarrow> Inl e
           | Inr (b, F') \<Rightarrow> Inr \<lparr>Func = F', Changed = b, WorkList = WL\<rparr>))"

definition PGOMemOPSizeOptImpl :: "config \<Rightarrow> func \<Rightarrow> error + bool \<times> func" where
  "PGOMemOPSizeOptImpl cfg F =
     (if DisableMemOPOPT cfg then Inr (False, F)
      else if OptimizeForSize F then Inr (False, F)
      else (case perform_all cfg F of
              Inl e \<Rightarrow> Inl e
            | Inr P \<Rightarrow> Inr (Changed P, Func P)))"

section \<open>Auxiliary notions for the statements\<close>

text \<open>The sum of the raw counts of a list of profile records, as a natural number.\<close>

definition raw_sum :: "InstrProfValueData list \<Rightarrow> nat" where
  "raw_sum VDs = sum_list (map (\<lambda>VD. unat (Count VD)) VDs)"

text \<open>The address the phi node of a rewrite gets: the next free one, when the call
  returns a value.\<close>

definition the_phi :: "func \<Rightarrow> nat \<Rightarrow> nat option" where
  "the_phi F MO = (if isVoidTy (Insts F MO) then None else Some (next_inst F))"

text \<open>The values a terminator uses.\<close>

fun term_uses :: "terminator \<Rightarrow> val list" where
  "term_uses (Br d) = []"
| "term_uses (Switch c d cs w) = [c]"
| "term_uses (OtherTerminator vs ds) = vs"

fun switch_cases :: "terminator \<Rightarrow> (u64 \<times> nat) list" where
  "switch_cases (Switch c d cs w) = cs"
| "switch_cases t = []"

section \<open>Example inputs\<close>

text \<open>The options of the scenarios: count threshold 1000, percent threshold 40, at most
  3 versions, no scaling. A value is in a range of its own when it is at most 8 or a
  power of two.\<close>

definition scenario_config :: config where
  "scenario_config =
     \<lparr>MemOPCountThreshold = 1000, DisableMemOPOPT = False, MemOPPercentThreshold = 40,
      MemOPMaxVersion = 3, MemOPScaleCount = False, MemOPSizeLarge = 8192,
      UseOldMemOpValueProf = False, MemOPOptMemcmpBcmp = True, MemOpMaxOptSize = 128,
      PreciseRangeLast = 8,
      InstrProfIsSingleValRange = (\<lambda>V. V \<le> 8 \<or> V AND (V - 1) = 0)\<rparr>"

text \<open>A function of one block: instruction 0 computes the size, instruction 1 is the
  call with a value profile, instruction 2 and the terminator use the result of the
  call. The block has frequency 64 and profile count 20000.\<close>

definition call_site :: "inst_class \<Rightarrow> bool \<Rightarrow> InstrProfValueData list \<Rightarrow> u64 \<Rightarrow> func" where
  "call_site cls void VDs T =
     \<lparr>Insts = (\<lambda>i. if i = 1
                   then \<lparr>iclass = cls, operands = [OtherValue 0, OtherValue 1, Inst 0],
                         incoming_blocks = [], isVoidTy = void,
                         MD_prof = Some \<lparr>Kind = IPVK_MemOPSize, TotalC = T, ValueData = VDs\<rparr>,
                         Parent = 0\<rparr>
                   else \<lparr>iclass = OtherInst, operands = (if i = 2 then [Inst 1] else []),
                         incoming_blocks = [], isVoidTy = False, MD_prof = None, Parent = 0\<rparr>),
      Blocks = (\<lambda>b. \<lparr>BBInsts = (if b = 0 then [0, 1, 2] else []),
                        Terminator = OtherTerminator [Inst 1] []\<rparr>),
      Layout = [0], next_inst = 3, next_block = 1, OptimizeForSize = False,
      BlockFreq = (\<lambda>b. if b = 0 then 64 else 0),
      BlockProfileCount = (\<lambda>b. if b = 0 then Some 20000 else None),
      DT = True, DomUpdates = [], Remarks = []\<rparr>"

definition scenario_samples :: "InstrProfValueData list" where
  "scenario_samples =
     [\<lparr>Value = 16, Count = 6000\<rparr>, \<lparr>Value = 32, Count = 3000\<rparr>, \<lparr>Value = 1000, Count = 1000\<rparr>]"

definition four_samples :: "InstrProfValueData list" where
  "four_samples =
     [\<lparr>Value = 1, Count = 5000\<rparr>, \<lparr>Value = 2, Count = 2500\<rparr>,
      \<lparr>Value = 4, Count = 1250\<rparr>, \<lparr>Value = 8, Count = 1000\<rparr>]"

definition skipped_first_samples :: "InstrProfValueData list" where
  "skipped_first_samples = [\<lparr>Value = 17, Count = 5000\<rparr>, \<lparr>Value = 16, Count = 4000\<rparr>]"

definition scenario_plan :: plan where
  "scenario_plan = \<lparr>RemainCount = 1000, SavedRemainCount = 1000, SizeIds = [16, 32],
                      CaseCounts = [0, 6000, 3000], MaxCount = 6000, Version = 2\<rparr>"

definition copy_site :: func where
  "copy_site = call_site (MemIntrinsic Intrinsic_memcpy) True scenario_samples 10000"

definition copy_rewritten :: func where
  "copy_rewritten = perform_rewrite copy_site 1 (Inst 0) scenario_samples 10000 scenario_plan"

definition memcmp_site :: func where
  "memcmp_site = call_site (CallInst (Some LibFunc_memcmp)) False scenario_samples 10000"

definition memcmp_rewritten :: func where
  "memcmp_rewritten = perform_rewrite memcmp_site 1 (Inst 0) scenario_samples 10000 scenario_plan"

definition four_plan :: plan where
  "four_plan = \<lparr>RemainCount = 250, SavedRemainCount = 250, SizeIds = [1, 2, 4, 8],
                  CaseCounts = [0, 5000, 2500, 1250, 1000], MaxCount = 5000, Version = 4\<rparr>"

definition four_site :: func where
  "four_site = call_site (MemIntrinsic Intrinsic_memcpy) True four_samples 10000"

definition four_rewritten :: func where
  "four_rewritten = perform_rewrite four_site 1 (Inst 0) four_samples 10000 four_plan"

definition skipped_first_site :: func where
  "skipped_first_site = call_site (MemIntrinsic Intrinsic_memcpy) True skipped_first_samples 9000"

definition first_run_plan :: plan where
  "first_run_plan = \<lparr>RemainCount = 5000, SavedRemainCount = 5000, SizeIds = [16],
                       CaseCounts = [0, 4000], MaxCount = 4000, Version = 1\<rparr>"

definition first_run :: func where
  "first_run = perform_rewrite skipped_first_site 1 (Inst 0) skipped_first_samples 9000 first_run_plan"

definition second_run_plan :: plan where
  "second_run_plan = \<lparr>RemainCount = 1000, SavedRemainCount = 1000, SizeIds = [16],
                        CaseCounts = [0, 4000], MaxCount = 4000, Version = 1\<rparr>"

definition second_run :: func where
  "second_run = perform_rewrite first_run 1 (Inst 0) [\<lparr>Value = 16, Count = 4000\<rparr>] 5000 second_run_plan"

text \<open>A profile whose total makes the product of the percent test exceed 64 bits.\<close>

definition overflow_samples :: "InstrProfValueData list" where
  "overflow_samples = [\<lparr>Value = 16, Count = 1000\<rparr>]"

definition overflow_site :: func where
  "overflow_site =
     call_site (MemIntrinsic Intrinsic_memcpy) True overflow_samples 461168601842738791"

definition overflow_plan :: plan where
  "overflow_plan = \<lparr>RemainCount = 461168601842737791, SavedRemainCount = 461168601842737791,
                      SizeIds = [16], CaseCounts = [0, 1000], MaxCount = 1000, Version = 1\<rparr>"

definition overflow_rewritten :: func where
  "overflow_rewritten =
     perform_rewrite overflow_site 1 (Inst 0) overflow_samples 461168601842738791 overflow_plan"

section \<open>Lemmas on the planning loop\<close>

lemma unat_SaturatingMultiply: "unat (SaturatingMultiply X Y) = min (unat X * unat Y) (2 ^ 64 - 1)"
proof (cases "unat X * unat Y < 2 ^ 64")
  case True
  then have "unat (X * Y) = unat X * unat Y"
    by (simp add: unat_word_ariths)
  with True show ?thesis by (simp add: SaturatingMultiply_def)
next
  case False
  have "unat (- 1 :: u64) = 2 ^ 64 - 1"
    by (simp add: unsigned_minus_1_eq_mask mask_eq_exp_minus_1)
  with False show ?thesis by (simp add: SaturatingMultiply_def)
qed

lemma scaled_bound:
  assumes "T \<noteq> 0"
  shows "unat (SaturatingMultiply c A div T) * unat T \<le> unat c * unat A"
proof -
  have "unat (SaturatingMultiply c A div T) = unat (SaturatingMultiply c A) div unat T"
    by (simp add: unat_div)
  also have "\<dots> * unat T \<le> unat (SaturatingMultiply c A)"
    by simp
  also have "\<dots> \<le> unat c * unat A"
    by (simp add: unat_SaturatingMultiply)
  finally show ?thesis .
qed

lemma isProfitable_eq:
  "C \<le> R \<Longrightarrow> isProfitable cfg C R =
     Inr (ucast (MemOPCountThreshold cfg) \<le> C \<and> R * ucast (MemOPPercentThreshold cfg) div 100 \<le> C)"
  by (auto simp: isProfitable_def not_less)

lemma raw_sum_simps [simp]: "raw_sum [] = 0" "raw_sum (VD # VDs) = unat (Count VD) + raw_sum VDs"
  by (simp_all add: raw_sum_def)

lemma scaled_ex:
  assumes "T \<noteq> 0" and "\<not> MemOPScaleCount cfg \<longrightarrow> A = T"
  shows "\<exists>C. (if MemOPScaleCount cfg then getScaledCount cfg c A T else Inr c) = Inr C \<and>
             unat C * unat T \<le> unat c * unat A"
  using assms scaled_bound [of T c A] by (auto simp: getScaledCount_def)

lemma plan_loop_inv:
  assumes T: "T \<noteq> 0" and AT: "\<not> MemOPScaleCount cfg \<longrightarrow> A = T"
  shows "unat A * raw_sum VDs \<le> unat (RemainCount s) * unat T \<Longrightarrow>
         raw_sum VDs \<le> unat (SavedRemainCount s) \<Longrightarrow>
         \<exists>s' cs vs. plan_loop cfg A T VDs s = Inr s' \<and>
            CaseCounts s' = CaseCounts s @ cs \<and> SizeIds s' = SizeIds s @ vs \<and>
            length vs = length cs \<and> Version s' = Version s + length cs \<and>
            sum_list (map unat cs) + unat (RemainCount s') = unat (RemainCount s)"
proof (induction VDs arbitrary: s)
  case Nil
  show ?case by simp
next
  case (Cons VD VDs)
  let ?c = "Count VD" and ?R = "RemainCount s"
  from scaled_ex [OF T AT, of ?c] obtain C where
    C: "(if MemOPScaleCount cfg then getScaledCount cfg ?c A T else Inr ?c) = Inr C"
    and CT: "unat C * unat T \<le> unat ?c * unat A" by blast
  have Tpos: "0 < unat T" using T by (simp add: unat_gt_0)
  have inv: "unat A * unat ?c + unat A * raw_sum VDs \<le> unat ?R * unat T"
    using Cons.prems(1) by (simp add: algebra_simps)
  have rest: "unat A * raw_sum VDs \<le> unat ?R * unat T" using inv by simp
  have saved: "raw_sum VDs \<le> unat (SavedRemainCount s)" using Cons.prems(2) by simp
  show ?case
  proof (cases "skipped cfg (Value VD)")
    case True
    from Cons.IH [OF rest saved] True C show ?thesis by simp
  next
    case False
    have CT': "unat C * unat T \<le> unat A * unat ?c"
      using CT by (simp only: mult.commute)
    have "unat C * unat T \<le> unat ?R * unat T"
      using CT' inv by linarith
    then have CR: "unat C \<le> unat ?R" using Tpos by simp
    then have CR': "C \<le> ?R" by (simp add: word_le_nat_alt)
    have cS: "?c \<le> SavedRemainCount s" using Cons.prems(2) by (simp add: word_le_nat_alt)
    from isProfitable_eq [OF CR'] obtain b where b: "isProfitable cfg C ?R = Inr b"
      by blast
    show ?thesis
    proof (cases b)
      case False
      with \<open>\<not> skipped cfg (Value VD)\<close> C b show ?thesis by simp
    next
      case True
      let ?s = "accept (Value VD) C ?c s"
      have R': "unat (RemainCount ?s) = unat ?R - unat C"
        using CR' by (simp add: accept_def unat_sub)
      have S': "unat (SavedRemainCount ?s) = unat (SavedRemainCount s) - unat ?c"
        using cS by (simp add: accept_def unat_sub)
      have step: "plan_loop cfg A T (VD # VDs) s =
          (if unat (MemOPMaxVersion cfg) < Version ?s \<and> MemOPMaxVersion cfg \<noteq> 0 then Inr ?s
           else plan_loop cfg A T VDs ?s)"
        using \<open>\<not> skipped cfg (Value VD)\<close> C b True CR' cS by (simp add: Let_def)
      show ?thesis
      proof (cases "unat (MemOPMaxVersion cfg) < Version ?s \<and> MemOPMaxVersion cfg \<noteq> 0")
        case True
        have "CaseCounts ?s = CaseCounts s @ [C]" "SizeIds ?s = SizeIds s @ [Value VD]"
          "Version ?s = Version s + length [C]"
          "sum_list (map unat [C]) + unat (RemainCount ?s) = unat ?R"
          using R' CR by (simp_all add: accept_def)
        with step True show ?thesis by (metis length_Cons list.size(3))
      next
        case False
        have "unat A * raw_sum VDs \<le> unat ?R * unat T - unat C * unat T"
          using inv CT' by linarith
        then have i1: "unat A * raw_sum VDs \<le> unat (RemainCount ?s) * unat T"
          by (simp add: R' diff_mult_distrib)
        have i2: "raw_sum VDs \<le> unat (SavedRemainCount ?s)"
          using Cons.prems(2) by (simp add: S')
        from Cons.IH [OF i1 i2] obtain s' cs vs where
          r: "plan_loop cfg A T VDs ?s = Inr s'" "CaseCounts s' = CaseCounts ?s @ cs"
             "SizeIds s' = SizeIds ?s @ vs" "length vs = length cs"
             "Version s' = Version ?s + length cs"
             "sum_list (map unat cs) + unat (RemainCount s') = unat (RemainCount ?s)"
          by blast
        have "plan_loop cfg A T (VD # VDs) s = Inr s'" using step False r(1) by simp
        moreover have "CaseCounts s' = CaseCounts s @ (C # cs)" using r(2) by (simp add: accept_def)
        moreover have "SizeIds s' = SizeIds s @ (Value VD # vs)" using r(3) by (simp add: accept_def)
        moreover have "length (Value VD # vs) = length (C # cs)" using r(4) by simp
        moreover have "Version s' = Version s + length (C # cs)" using r(5) by (simp add: accept_def)
        moreover have "sum_list (map unat (C # cs)) + unat (RemainCount s') = unat ?R"
          using r(6) R' CR by simp
        ultimately show ?thesis by blast
      qed
    qed
  qed
qed

lemma plan_loop_no_div:
  "T \<noteq> 0 \<Longrightarrow> plan_loop cfg A T VDs s \<noteq> Inl DivisionByZero"
  by (induction VDs arbitrary: s)
     (auto simp: getScaledCount_def isProfitable_def Let_def split: sum.splits if_splits bool.splits)

section \<open>Lemmas on the rewrite\<close>

lemma new_case_proj [simp]:
  "next_block (fst (new_case MO BB D M PHI c FU)) = Suc (next_block (fst FU))"
  "next_inst (fst (new_case MO BB D M PHI c FU)) = Suc (next_inst (fst FU))"
  "BlockFreq (fst (new_case MO BB D M PHI c FU)) = BlockFreq (fst FU)"
  "BlockProfileCount (fst (new_case MO BB D M PHI c FU)) = BlockProfileCount (fst FU)"
  "DT (fst (new_case MO BB D M PHI c FU)) = DT (fst FU)"
  "DomUpdates (fst (new_case MO BB D M PHI c FU)) = DomUpdates (fst FU)"
  "Remarks (fst (new_case MO BB D M PHI c FU)) = Remarks (fst FU)"
  "OptimizeForSize (fst (new_case MO BB D M PHI c FU)) = OptimizeForSize (fst FU)"
  by (simp_all add: new_case_def Let_def addCase_def addIncoming_def split: option.split)

lemma new_case_Blocks:
  "Blocks (fst (new_case MO BB D M PHI c FU)) =
     (\<lambda>b. if b = BB
          then \<lparr>BBInsts = (if BB = next_block (fst FU) then [next_inst (fst FU)] else BBInsts (Blocks (fst FU) BB)),
                Terminator = addCase_term c (next_block (fst FU))
                   (if BB = next_block (fst FU) then Br M else Terminator (Blocks (fst FU) BB))\<rparr>
          else if b = next_block (fst FU) then \<lparr>BBInsts = [next_inst (fst FU)], Terminator = Br M\<rparr>
          else Blocks (fst FU) b)"
  by (auto simp: new_case_def Let_def addCase_def addIncoming_def fun_eq_iff split: option.split)

lemma new_case_Insts_None:
  "Insts (fst (new_case MO BB D M None c FU)) =
     (Insts (fst FU))(next_inst (fst FU) :=
        setLength (ConstantInt c) ((Insts (fst FU) MO)\<lparr>Parent := next_block (fst FU)\<rparr>))"
  by (simp add: new_case_def Let_def addCase_def)

lemma new_case_Insts_Some:
  "Insts (fst (new_case MO BB D M (Some P) c FU)) =
     (let I' = (Insts (fst FU))(next_inst (fst FU) :=
                 setLength (ConstantInt c) ((Insts (fst FU) MO)\<lparr>Parent := next_block (fst FU)\<rparr>))
      in I'(P := (I' P)\<lparr>operands := operands (I' P) @ [Inst (next_inst (fst FU))],
                         incoming_blocks := incoming_blocks (I' P) @ [next_block (fst FU)]\<rparr>))"
  by (simp add: new_case_def Let_def addCase_def addIncoming_def)

lemma new_case_snd:
  "snd (new_case MO BB D M PHI c FU) =
     (if DT (fst FU) then snd FU @ [(next_block (fst FU), M), (BB, next_block (fst FU))] else snd FU)"
  by (simp add: new_case_def Let_def)

lemma case_loop_counters [simp]:
  "next_block (fst (case_loop MO BB D M PHI Ids FU)) = next_block (fst FU) + length Ids"
  "next_inst (fst (case_loop MO BB D M PHI Ids FU)) = next_inst (fst FU) + length Ids"
  by (induction Ids arbitrary: FU) simp_all

lemma case_loop_frame [simp]:
  "BlockFreq (fst (case_loop MO BB D M PHI Ids FU)) = BlockFreq (fst FU)"
  "BlockProfileCount (fst (case_loop MO BB D M PHI Ids FU)) = BlockProfileCount (fst FU)"
  "DT (fst (case_loop MO BB D M PHI Ids FU)) = DT (fst FU)"
  "DomUpdates (fst (case_loop MO BB D M PHI Ids FU)) = DomUpdates (fst FU)"
  "Remarks (fst (case_loop MO BB D M PHI Ids FU)) = Remarks (fst FU)"
  "OptimizeForSize (fst (case_loop MO BB D M PHI Ids FU)) = OptimizeForSize (fst FU)"
  by (induction Ids arbitrary: FU) simp_all

lemma case_loop_Blocks_old:
  "b < next_block (fst FU) \<Longrightarrow> b \<noteq> BB \<Longrightarrow>
   Blocks (fst (case_loop MO BB D M PHI Ids FU)) b = Blocks (fst FU) b"
  by (induction Ids arbitrary: FU) (simp_all add: new_case_Blocks)

lemma case_loop_BBInsts:
  "BB < next_block (fst FU) \<Longrightarrow>
   BBInsts (Blocks (fst (case_loop MO BB D M PHI Ids FU)) BB) = BBInsts (Blocks (fst FU) BB)"
  by (induction Ids arbitrary: FU) (simp_all add: new_case_Blocks)

lemma case_loop_switch:
  "BB < next_block (fst FU) \<Longrightarrow> Terminator (Blocks (fst FU) BB) = Switch v d cs w \<Longrightarrow>
   Terminator (Blocks (fst (case_loop MO BB D M PHI Ids FU)) BB) =
     Switch v d (cs @ zip Ids [next_block (fst FU) ..< next_block (fst FU) + length Ids]) w"
proof (induction Ids arbitrary: FU cs)
  case Nil
  then show ?case by simp
next
  case (Cons c Ids)
  let ?FU = "new_case MO BB D M PHI c FU"
  have 1: "BB < next_block (fst ?FU)" using Cons.prems(1) by simp
  have 2: "Terminator (Blocks (fst ?FU) BB) = Switch v d (cs @ [(c, next_block (fst FU))]) w"
    using Cons.prems by (simp add: new_case_Blocks)
  have e: "[next_block (fst FU) ..< next_block (fst FU) + length (c # Ids)] =
           next_block (fst FU) # [next_block (fst ?FU) ..< next_block (fst ?FU) + length Ids]"
    by (subst upt_conv_Cons) simp_all
  show ?case
    unfolding e using Cons.IH [OF 1 2] by simp
qed

lemma case_loop_case_block:
  "BB < next_block (fst FU) \<Longrightarrow> k < length Ids \<Longrightarrow>
   Blocks (fst (case_loop MO BB D M PHI Ids FU)) (next_block (fst FU) + k) =
     \<lparr>BBInsts = [next_inst (fst FU) + k], Terminator = Br M\<rparr>"
proof (induction Ids arbitrary: FU k)
  case Nil
  then show ?case by simp
next
  case (Cons c Ids)
  let ?FU = "new_case MO BB D M PHI c FU"
  have 1: "BB < next_block (fst ?FU)" using Cons.prems(1) by simp
  show ?case
  proof (cases k)
    case 0
    have "Blocks (fst (case_loop MO BB D M PHI Ids ?FU)) (next_block (fst FU)) =
          Blocks (fst ?FU) (next_block (fst FU))"
      using Cons.prems(1) by (intro case_loop_Blocks_old) simp_all
    with 0 Cons.prems(1) show ?thesis by (simp add: new_case_Blocks)
  next
    case (Suc k')
    with Cons.prems have "k' < length Ids" by simp
    from Cons.IH [OF 1 this] Suc show ?thesis by simp
  qed
qed

lemma new_case_Insts_other:
  "i \<noteq> next_inst (fst FU) \<Longrightarrow> PHI \<noteq> Some i \<Longrightarrow>
   Insts (fst (new_case MO BB D M PHI c FU)) i = Insts (fst FU) i"
  by (cases PHI) (simp_all add: new_case_Insts_None new_case_Insts_Some Let_def)

lemma new_case_Insts_clone:
  "PHI \<noteq> Some (next_inst (fst FU)) \<Longrightarrow>
   Insts (fst (new_case MO BB D M PHI c FU)) (next_inst (fst FU)) =
     setLength (ConstantInt c) ((Insts (fst FU) MO)\<lparr>Parent := next_block (fst FU)\<rparr>)"
  by (cases PHI) (simp_all add: new_case_Insts_None new_case_Insts_Some Let_def)

lemma new_case_Insts_phi:
  "P \<noteq> next_inst (fst FU) \<Longrightarrow>
   Insts (fst (new_case MO BB D M (Some P) c FU)) P =
     (Insts (fst FU) P)\<lparr>operands := operands (Insts (fst FU) P) @ [Inst (next_inst (fst FU))],
                         incoming_blocks := incoming_blocks (Insts (fst FU) P) @ [next_block (fst FU)]\<rparr>"
  by (simp add: new_case_Insts_Some Let_def)

lemma case_loop_Insts_old:
  "i < next_inst (fst FU) \<Longrightarrow> PHI \<noteq> Some i \<Longrightarrow>
   Insts (fst (case_loop MO BB D M PHI Ids FU)) i = Insts (fst FU) i"
  by (induction Ids arbitrary: FU) (simp_all add: new_case_Insts_other)

lemma case_loop_Insts_beyond:
  "next_inst (fst FU) + length Ids \<le> i \<Longrightarrow> PHI \<noteq> Some i \<Longrightarrow>
   Insts (fst (case_loop MO BB D M PHI Ids FU)) i = Insts (fst FU) i"
  by (induction Ids arbitrary: FU) (simp_all add: new_case_Insts_other)

lemma case_loop_Insts_phi:
  "P < next_inst (fst FU) \<Longrightarrow>
   Insts (fst (case_loop MO BB D M (Some P) Ids FU)) P =
     (Insts (fst FU) P)
       \<lparr>operands := operands (Insts (fst FU) P) @
            map Inst [next_inst (fst FU) ..< next_inst (fst FU) + length Ids],
        incoming_blocks := incoming_blocks (Insts (fst FU) P) @
            [next_block (fst FU) ..< next_block (fst FU) + length Ids]\<rparr>"
proof (induction Ids arbitrary: FU)
  case Nil
  then show ?case by simp
next
  case (Cons c Ids)
  let ?FU = "new_case MO BB D M (Some P) c FU"
  have 1: "P < next_inst (fst ?FU)" using Cons.prems by simp
  have 2: "P \<noteq> next_inst (fst FU)" using Cons.prems by simp
  have e: "[next_inst (fst FU) ..< next_inst (fst FU) + length (c # Ids)] =
           next_inst (fst FU) # [next_inst (fst ?FU) ..< next_inst (fst ?FU) + length Ids]"
    by (subst upt_conv_Cons) simp_all
  have f: "[next_block (fst FU) ..< next_block (fst FU) + length (c # Ids)] =
           next_block (fst FU) # [next_block (fst ?FU) ..< next_block (fst ?FU) + length Ids]"
    by (subst upt_conv_Cons) simp_all
  show ?case
    unfolding e f using Cons.IH [OF 1] by (simp add: new_case_Insts_phi [OF 2])
qed

lemma case_loop_Insts_clone:
  "MO < next_inst (fst FU) \<Longrightarrow> PHI \<noteq> Some MO \<Longrightarrow>
   (\<And>P. PHI = Some P \<Longrightarrow> P < next_inst (fst FU)) \<Longrightarrow> k < length Ids \<Longrightarrow>
   Insts (fst (case_loop MO BB D M PHI Ids FU)) (next_inst (fst FU) + k) =
     setLength (ConstantInt (Ids ! k)) ((Insts (fst FU) MO)\<lparr>Parent := next_block (fst FU) + k\<rparr>)"
proof (induction Ids arbitrary: FU k)
  case Nil
  then show ?case by simp
next
  case (Cons c Ids)
  let ?FU = "new_case MO BB D M PHI c FU"
  have 1: "MO < next_inst (fst ?FU)" using Cons.prems(1) by simp
  have 3: "\<And>P. PHI = Some P \<Longrightarrow> P < next_inst (fst ?FU)"
    using Cons.prems(3) by fastforce
  have 4: "PHI \<noteq> Some (next_inst (fst FU))" using Cons.prems(3) by fastforce
  have MO: "Insts (fst ?FU) MO = Insts (fst FU) MO"
    using Cons.prems(1,2) by (intro new_case_Insts_other) simp_all
  show ?case
  proof (cases k)
    case 0
    have "Insts (fst (case_loop MO BB D M PHI Ids ?FU)) (next_inst (fst FU)) =
          Insts (fst ?FU) (next_inst (fst FU))"
      using 4 by (intro case_loop_Insts_old) simp_all
    with 0 show ?thesis by (simp add: new_case_Insts_clone [OF 4])
  next
    case (Suc k')
    with Cons.prems have "k' < length Ids" by simp
    from Cons.IH [OF 1 Cons.prems(2) 3 this] Suc MO show ?thesis by simp
  qed
qed

subsection \<open>Splitting the block\<close>

lemma rewrite_split_snd [simp]:
  "snd (rewrite_split F MO SV) = (Parent (Insts F MO), next_block F, Suc (next_block F))"
  by (simp add: rewrite_split_def SplitBlock_def Let_def)

lemma rewrite_split_proj [simp]:
  "next_block (fst (rewrite_split F MO SV)) = Suc (Suc (next_block F))"
  "next_inst (fst (rewrite_split F MO SV)) = next_inst F"
  "BlockFreq (fst (rewrite_split F MO SV)) =
     (BlockFreq F)(Suc (next_block F) := BlockFreq F (Parent (Insts F MO)))"
  "BlockProfileCount (fst (rewrite_split F MO SV)) = BlockProfileCount F"
  "DT (fst (rewrite_split F MO SV)) = DT F"
  "DomUpdates (fst (rewrite_split F MO SV)) = DomUpdates F"
  "Remarks (fst (rewrite_split F MO SV)) = Remarks F"
  "OptimizeForSize (fst (rewrite_split F MO SV)) = OptimizeForSize F"
  by (simp_all add: rewrite_split_def SplitBlock_def Let_def setBlockFreq_def CreateSwitch_def)

lemma rewrite_split_Insts [simp]:
  "iclass (Insts (fst (rewrite_split F MO SV)) i) = iclass (Insts F i)"
  "operands (Insts (fst (rewrite_split F MO SV)) i) = operands (Insts F i)"
  "incoming_blocks (Insts (fst (rewrite_split F MO SV)) i) = incoming_blocks (Insts F i)"
  "isVoidTy (Insts (fst (rewrite_split F MO SV)) i) = isVoidTy (Insts F i)"
  "MD_prof (Insts (fst (rewrite_split F MO SV)) i) = MD_prof (Insts F i)"
  by (simp_all add: rewrite_split_def SplitBlock_def Let_def setBlockFreq_def CreateSwitch_def)

lemma rewrite_split_head [simp]:
  "Terminator (Blocks (fst (rewrite_split F MO SV)) (Parent (Insts F MO))) =
     Switch SV (next_block F) [] None"
  by (simp add: rewrite_split_def SplitBlock_def Let_def setBlockFreq_def CreateSwitch_def)

lemma rewrite_split_default:
  "Parent (Insts F MO) < next_block F \<Longrightarrow>
   Terminator (Blocks (fst (rewrite_split F MO SV)) (next_block F)) = Br (Suc (next_block F))"
  by (simp add: rewrite_split_def SplitBlock_def Let_def setBlockFreq_def CreateSwitch_def)

lemma rewrite_split_term_other:
  "b \<noteq> Parent (Insts F MO) \<Longrightarrow> b \<noteq> next_block F \<Longrightarrow> b \<noteq> Suc (next_block F) \<Longrightarrow>
   Blocks (fst (rewrite_split F MO SV)) b = Blocks F b"
  by (simp add: rewrite_split_def SplitBlock_def Let_def setBlockFreq_def CreateSwitch_def)

lemma rewrite_split_merge:
  "Parent (Insts F MO) < next_block F \<Longrightarrow>
   Terminator (Blocks (fst (rewrite_split F MO SV)) (Suc (next_block F))) =
     Terminator (Blocks F (Parent (Insts F MO)))"
  by (simp add: rewrite_split_def SplitBlock_def Let_def setBlockFreq_def CreateSwitch_def)

subsection \<open>The phi node\<close>

lemma rewrite_phi_void:
  "isVoidTy (Insts F MO) \<Longrightarrow> rewrite_phi F MO D M = (F, None)"
  by (simp add: rewrite_phi_def)

lemma rewrite_phi_snd:
  "snd (rewrite_phi F MO D M) = (if isVoidTy (Insts F MO) then None else Some (next_inst F))"
  by (simp add: rewrite_phi_def CreatePHI_def Let_def)

lemma rewrite_phi_proj [simp]:
  "next_block (fst (rewrite_phi F MO D M)) = next_block F"
  "next_inst (fst (rewrite_phi F MO D M)) = (if isVoidTy (Insts F MO) then next_inst F else Suc (next_inst F))"
  "BlockFreq (fst (rewrite_phi F MO D M)) = BlockFreq F"
  "BlockProfileCount (fst (rewrite_phi F MO D M)) = BlockProfileCount F"
  "DT (fst (rewrite_phi F MO D M)) = DT F"
  "DomUpdates (fst (rewrite_phi F MO D M)) = DomUpdates F"
  "Remarks (fst (rewrite_phi F MO D M)) = Remarks F"
  "OptimizeForSize (fst (rewrite_phi F MO D M)) = OptimizeForSize F"
  by (simp_all add: rewrite_phi_def CreatePHI_def Let_def replaceAllUsesWith_def addIncoming_def)

lemma rewrite_phi_Insts:
  "\<not> isVoidTy (Insts F MO) \<Longrightarrow>
   Insts (fst (rewrite_phi F MO D M)) =
     (\<lambda>i. if i = next_inst F
          then \<lparr>iclass = PHINode, operands = [Inst MO], incoming_blocks = [D],
                isVoidTy = False, MD_prof = None, Parent = M\<rparr>
          else (Insts F i)\<lparr>operands := map (subst_val (Inst MO) (Inst (next_inst F)))
                                         (operands (Insts F i))\<rparr>)"
  by (auto simp: rewrite_phi_def CreatePHI_def Let_def replaceAllUsesWith_def addIncoming_def fun_eq_iff)

lemma rewrite_phi_Terminator:
  "Terminator (Blocks (fst (rewrite_phi F MO D M)) b) =
     (if isVoidTy (Insts F MO) then Terminator (Blocks F b)
      else subst_term (Inst MO) (Inst (next_inst F)) (Terminator (Blocks F b)))"
  by (simp add: rewrite_phi_def CreatePHI_def Let_def replaceAllUsesWith_def addIncoming_def)

lemma rewrite_phi_BBInsts:
  "\<not> isVoidTy (Insts F MO) \<Longrightarrow> next_inst F \<in> set (BBInsts (Blocks (fst (rewrite_phi F MO D M)) M))"
  by (simp add: rewrite_phi_def CreatePHI_def Let_def replaceAllUsesWith_def addIncoming_def)

subsection \<open>The profile written back\<close>

lemma rewrite_md_proj [simp]:
  "next_block (rewrite_md F MO VDs s) = next_block F"
  "next_inst (rewrite_md F MO VDs s) = next_inst F"
  "BlockFreq (rewrite_md F MO VDs s) = BlockFreq F"
  "BlockProfileCount (rewrite_md F MO VDs s) = BlockProfileCount F"
  "DT (rewrite_md F MO VDs s) = DT F"
  "DomUpdates (rewrite_md F MO VDs s) = DomUpdates F"
  "Remarks (rewrite_md F MO VDs s) = Remarks F"
  "OptimizeForSize (rewrite_md F MO VDs s) = OptimizeForSize F"
  "Blocks (rewrite_md F MO VDs s) = Blocks F"
  by (simp_all add: rewrite_md_def setMetadata_def annotateValueSite_def Let_def)

lemma rewrite_md_Insts [simp]:
  "iclass (Insts (rewrite_md F MO VDs s) i) = iclass (Insts F i)"
  "operands (Insts (rewrite_md F MO VDs s) i) = operands (Insts F i)"
  "incoming_blocks (Insts (rewrite_md F MO VDs s) i) = incoming_blocks (Insts F i)"
  "isVoidTy (Insts (rewrite_md F MO VDs s) i) = isVoidTy (Insts F i)"
  "Parent (Insts (rewrite_md F MO VDs s) i) = Parent (Insts F i)"
  by (simp_all add: rewrite_md_def setMetadata_def annotateValueSite_def Let_def)

lemma rewrite_md_MD:
  "MD_prof (Insts (rewrite_md F MO VDs s) MO) =
     (if 0 < SavedRemainCount s \<or> Version s \<noteq> length VDs
      then Some \<lparr>Kind = IPVK_MemOPSize, TotalC = SavedRemainCount s,
                 ValueData = take (length VDs) (drop (Version s) VDs)\<rparr>
      else None)"
  by (simp add: rewrite_md_def setMetadata_def annotateValueSite_def Let_def)

subsection \<open>Weights and remark\<close>

lemma rewrite_finish_proj [simp]:
  "next_block (rewrite_finish FU MO BB cc mc sfo tc v) = next_block (fst FU)"
  "next_inst (rewrite_finish FU MO BB cc mc sfo tc v) = next_inst (fst FU)"
  "BlockFreq (rewrite_finish FU MO BB cc mc sfo tc v) = BlockFreq (fst FU)"
  "BlockProfileCount (rewrite_finish FU MO BB cc mc sfo tc v) = BlockProfileCount (fst FU)"
  "DT (rewrite_finish FU MO BB cc mc sfo tc v) = DT (fst FU)"
  "Insts (rewrite_finish FU MO BB cc mc sfo tc v) = Insts (fst FU)"
  "OptimizeForSize (rewrite_finish FU MO BB cc mc sfo tc v) = OptimizeForSize (fst FU)"
  "BBInsts (Blocks (rewrite_finish FU MO BB cc mc sfo tc v) b) = BBInsts (Blocks (fst FU) b)"
  "Terminator (Blocks (rewrite_finish FU MO BB cc mc sfo tc v) b) =
     (if b = BB then setWeights_term cc mc (Terminator (Blocks (fst FU) BB))
      else Terminator (Blocks (fst FU) b))"
  by (simp_all add: rewrite_finish_def setProfMetadata_def Let_def)

lemma rewrite_md_Insts_other:
  "i \<noteq> MO \<Longrightarrow> Insts (rewrite_md F MO VDs s) i = Insts F i"
  by (simp add: rewrite_md_def setMetadata_def annotateValueSite_def Let_def)

lemma case_loop_Blocks_beyond:
  "next_block (fst FU) + length Ids \<le> b \<Longrightarrow> b \<noteq> BB \<Longrightarrow>
   Blocks (fst (case_loop MO BB D M PHI Ids FU)) b = Blocks (fst FU) b"
  by (induction Ids arbitrary: FU) (simp_all add: new_case_Blocks)

subsection \<open>The whole rewrite\<close>

lemma perform_rewrite_eq:
  "perform_rewrite F MO SV VDs A s =
     rewrite_finish
       (case_loop MO (Parent (Insts F MO)) (next_block F) (Suc (next_block F)) (the_phi F MO) (SizeIds s)
          (rewrite_md (fst (rewrite_phi (fst (rewrite_split F MO SV)) MO (next_block F) (Suc (next_block F))))
             MO VDs s, []))
       MO (Parent (Insts F MO)) ((CaseCounts s)[0 := RemainCount s])
       (if MaxCount s < RemainCount s then RemainCount s else MaxCount s)
       (A - RemainCount s) A (Version s)"
proof -
  obtain F4 BB D M where sp: "rewrite_split F MO SV = (F4, BB, D, M)"
    by (metis prod_cases4)
  have ids: "BB = Parent (Insts F MO)" "D = next_block F" "M = Suc (next_block F)"
    using rewrite_split_snd [of F MO SV] by (simp_all add: sp)
  obtain F5 PHI where ph: "rewrite_phi F4 MO D M = (F5, PHI)" by fastforce
  have PHI: "PHI = the_phi F MO"
    using rewrite_phi_snd [of F4 MO D M] rewrite_split_Insts(4) [of F MO SV MO]
      rewrite_split_proj(2) [of F MO SV]
    by (simp add: ph sp the_phi_def)
  show ?thesis
    unfolding perform_rewrite_def Let_def sp ph prod.case
    using ids PHI sp ph by simp
qed

lemma subst_term_uses:
  "New \<noteq> Old \<Longrightarrow> Old \<notin> set (term_uses (subst_term Old New t))"
  by (cases t) (auto simp: subst_val_def)

lemma subst_operands:
  "New \<noteq> Old \<Longrightarrow> Old \<notin> set (map (subst_val Old New) vs)"
  by (auto simp: subst_val_def)

lemma rewrite_BlockFreq:
  "BlockFreq (perform_rewrite F MO SV VDs A s) =
     (BlockFreq F)(Suc (next_block F) := BlockFreq F (Parent (Insts F MO)))"
  by (simp add: perform_rewrite_eq)

lemma rewrite_next_block:
  "next_block (perform_rewrite F MO SV VDs A s) = next_block F + 2 + length (SizeIds s)"
  by (simp add: perform_rewrite_eq)

lemma rewrite_next_inst:
  "next_inst (perform_rewrite F MO SV VDs A s) =
     next_inst F + (if isVoidTy (Insts F MO) then 0 else 1) + length (SizeIds s)"
  by (simp add: perform_rewrite_eq)

lemma rewrite_switch:
  assumes "Parent (Insts F MO) < next_block F"
  shows "Terminator (Blocks (perform_rewrite F MO SV VDs A s) (Parent (Insts F MO))) =
     Switch (if isVoidTy (Insts F MO) then SV else subst_val (Inst MO) (Inst (next_inst F)) SV)
       (next_block F)
       (zip (SizeIds s) [next_block F + 2 ..< next_block F + 2 + length (SizeIds s)])
       (Some ((CaseCounts s)[0 := RemainCount s],
              if MaxCount s < RemainCount s then RemainCount s else MaxCount s))"
proof -
  let ?F4 = "fst (rewrite_split F MO SV)"
  let ?F5 = "fst (rewrite_phi ?F4 MO (next_block F) (Suc (next_block F)))"
  let ?F7 = "rewrite_md ?F5 MO VDs s"
  have t: "Terminator (Blocks (fst (?F7, [])) (Parent (Insts F MO))) =
      Switch (if isVoidTy (Insts F MO) then SV else subst_val (Inst MO) (Inst (next_inst F)) SV)
        (next_block F) [] None"
    by (simp add: rewrite_phi_Terminator)
  have b: "Parent (Insts F MO) < next_block (fst (?F7, []))"
    using assms by simp
  show ?thesis
    unfolding perform_rewrite_eq
    using case_loop_switch [OF b t, of MO "next_block F" "Suc (next_block F)" "the_phi F MO" "SizeIds s"]
    by simp
qed

lemma rewrite_default:
  assumes "Parent (Insts F MO) < next_block F"
  shows "Terminator (Blocks (perform_rewrite F MO SV VDs A s) (next_block F)) = Br (Suc (next_block F))"
proof -
  let ?F4 = "fst (rewrite_split F MO SV)"
  let ?F5 = "fst (rewrite_phi ?F4 MO (next_block F) (Suc (next_block F)))"
  let ?F7 = "rewrite_md ?F5 MO VDs s"
  have "Blocks (fst (case_loop MO (Parent (Insts F MO)) (next_block F) (Suc (next_block F))
           (the_phi F MO) (SizeIds s) (?F7, []))) (next_block F) = Blocks ?F7 (next_block F)"
    using case_loop_Blocks_old [of "next_block F" "(?F7, [])" "Parent (Insts F MO)"] assms by simp
  then show ?thesis
    unfolding perform_rewrite_eq using assms
    by (simp add: rewrite_phi_Terminator rewrite_split_default)
qed

lemma rewrite_case_block:
  assumes "Parent (Insts F MO) < next_block F" and "k < length (SizeIds s)"
  shows "Terminator (Blocks (perform_rewrite F MO SV VDs A s) (next_block F + 2 + k)) = Br (Suc (next_block F))"
    and "BBInsts (Blocks (perform_rewrite F MO SV VDs A s) (next_block F + 2 + k)) =
           [next_inst F + (if isVoidTy (Insts F MO) then 0 else 1) + k]"
proof -
  let ?F4 = "fst (rewrite_split F MO SV)"
  let ?F5 = "fst (rewrite_phi ?F4 MO (next_block F) (Suc (next_block F)))"
  let ?F7 = "rewrite_md ?F5 MO VDs s"
  have b: "Parent (Insts F MO) < next_block (fst (?F7, []))"
    using assms by simp
  note c = case_loop_case_block [OF b assms(2), of MO "next_block F" "Suc (next_block F)" "the_phi F MO"]
  show "Terminator (Blocks (perform_rewrite F MO SV VDs A s) (next_block F + 2 + k)) = Br (Suc (next_block F))"
    unfolding perform_rewrite_eq using c assms(1) by simp
  show "BBInsts (Blocks (perform_rewrite F MO SV VDs A s) (next_block F + 2 + k)) =
           [next_inst F + (if isVoidTy (Insts F MO) then 0 else 1) + k]"
    unfolding perform_rewrite_eq using c assms(1) by simp
qed

lemma rewrite_phi_Insts_old:
  "i < next_inst F \<Longrightarrow>
   Insts (fst (rewrite_phi F MO D M)) i =
     (Insts F i)\<lparr>operands := (if isVoidTy (Insts F MO) then operands (Insts F i)
                                 else map (subst_val (Inst MO) (Inst (next_inst F))) (operands (Insts F i)))\<rparr>"
  by (cases "isVoidTy (Insts F MO)") (simp_all add: rewrite_phi_Insts rewrite_phi_void)

lemma rewrite_Insts_MO:
  assumes "MO < next_inst F"
  shows "Insts (perform_rewrite F MO SV VDs A s) MO =
     Insts (rewrite_md (fst (rewrite_phi (fst (rewrite_split F MO SV)) MO (next_block F) (Suc (next_block F))))
              MO VDs s) MO"
proof -
  let ?F4 = "fst (rewrite_split F MO SV)"
  let ?F5 = "fst (rewrite_phi ?F4 MO (next_block F) (Suc (next_block F)))"
  let ?F7 = "rewrite_md ?F5 MO VDs s"
  have "the_phi F MO \<noteq> Some MO" using assms by (simp add: the_phi_def)
  moreover have "MO < next_inst (fst (?F7, [] :: (nat \<times> nat) list))" using assms by simp
  ultimately show ?thesis
    unfolding perform_rewrite_eq
    using case_loop_Insts_old [of MO "(?F7, [])" "the_phi F MO"] by simp
qed

lemma rewrite_MD_prof:
  assumes "MO < next_inst F"
  shows "MD_prof (Insts (perform_rewrite F MO SV VDs A s) MO) =
     (if 0 < SavedRemainCount s \<or> Version s \<noteq> length VDs
      then Some \<lparr>Kind = IPVK_MemOPSize, TotalC = SavedRemainCount s,
                 ValueData = take (length VDs) (drop (Version s) VDs)\<rparr>
      else None)"
  by (simp only: rewrite_Insts_MO [OF assms] rewrite_md_MD)

lemma rewrite_MO_fields:
  assumes "MO < next_inst F"
  shows "iclass (Insts (perform_rewrite F MO SV VDs A s) MO) = iclass (Insts F MO)"
    and "isVoidTy (Insts (perform_rewrite F MO SV VDs A s) MO) = isVoidTy (Insts F MO)"
    and "operands (Insts (perform_rewrite F MO SV VDs A s) MO) =
          (if isVoidTy (Insts F MO) then operands (Insts F MO)
           else map (subst_val (Inst MO) (Inst (next_inst F))) (operands (Insts F MO)))"
  using assms
  by (simp_all add: rewrite_Insts_MO [OF assms] rewrite_phi_Insts_old)

lemma rewrite_phi_node:
  assumes "MO < next_inst F" and "\<not> isVoidTy (Insts F MO)"
  shows "Insts (perform_rewrite F MO SV VDs A s) (next_inst F) =
     \<lparr>iclass = PHINode,
      operands = Inst MO # map Inst [next_inst F + 1 ..< next_inst F + 1 + length (SizeIds s)],
      incoming_blocks = next_block F # [next_block F + 2 ..< next_block F + 2 + length (SizeIds s)],
      isVoidTy = False, MD_prof = None, Parent = Suc (next_block F)\<rparr>"
proof -
  let ?F4 = "fst (rewrite_split F MO SV)"
  let ?F5 = "fst (rewrite_phi ?F4 MO (next_block F) (Suc (next_block F)))"
  let ?F7 = "rewrite_md ?F5 MO VDs s"
  have v: "\<not> isVoidTy (Insts ?F4 MO)" using assms(2) by simp
  have p: "Insts ?F7 (next_inst F) =
      \<lparr>iclass = PHINode, operands = [Inst MO], incoming_blocks = [next_block F],
       isVoidTy = False, MD_prof = None, Parent = Suc (next_block F)\<rparr>"
    using assms(1) by (simp add: rewrite_md_Insts_other rewrite_phi_Insts [OF v])
  have "next_inst F < next_inst (fst (?F7, [] :: (nat \<times> nat) list))" using assms(2) by simp
  from case_loop_Insts_phi [OF this, of MO "Parent (Insts F MO)" "next_block F" "Suc (next_block F)" "SizeIds s"]
  show ?thesis
    unfolding perform_rewrite_eq using assms(2) p by (simp add: the_phi_def)
qed

lemma rewrite_phi_in_merge:
  assumes "Parent (Insts F MO) < next_block F" and "\<not> isVoidTy (Insts F MO)"
  shows "next_inst F \<in> set (BBInsts (Blocks (perform_rewrite F MO SV VDs A s) (Suc (next_block F))))"
proof -
  let ?F4 = "fst (rewrite_split F MO SV)"
  let ?F5 = "fst (rewrite_phi ?F4 MO (next_block F) (Suc (next_block F)))"
  let ?F7 = "rewrite_md ?F5 MO VDs s"
  have v: "\<not> isVoidTy (Insts ?F4 MO)" using assms(2) by simp
  have "Blocks (fst (case_loop MO (Parent (Insts F MO)) (next_block F) (Suc (next_block F))
           (the_phi F MO) (SizeIds s) (?F7, []))) (Suc (next_block F)) = Blocks ?F7 (Suc (next_block F))"
    using case_loop_Blocks_old [of "Suc (next_block F)" "(?F7, [])" "Parent (Insts F MO)"] assms by simp
  then show ?thesis
    unfolding perform_rewrite_eq using rewrite_phi_BBInsts [OF v, of "next_block F" "Suc (next_block F)"]
    by simp
qed

lemma rewrite_clone:
  assumes "MO < next_inst F" and "k < length (SizeIds s)"
  shows "operands (Insts (perform_rewrite F MO SV VDs A s)
                      (next_inst F + (if isVoidTy (Insts F MO) then 0 else 1) + k)) =
           (operands (Insts (perform_rewrite F MO SV VDs A s) MO))[2 := ConstantInt (SizeIds s ! k)]"
    and "iclass (Insts (perform_rewrite F MO SV VDs A s)
                      (next_inst F + (if isVoidTy (Insts F MO) then 0 else 1) + k)) = iclass (Insts F MO)"
proof -
  let ?F4 = "fst (rewrite_split F MO SV)"
  let ?F5 = "fst (rewrite_phi ?F4 MO (next_block F) (Suc (next_block F)))"
  let ?F7 = "rewrite_md ?F5 MO VDs s"
  let ?FU = "(?F7, [] :: (nat \<times> nat) list)"
  have 1: "MO < next_inst (fst ?FU)" using assms(1) by simp
  have 2: "the_phi F MO \<noteq> Some MO" using assms(1) by (simp add: the_phi_def)
  have 3: "\<And>P. the_phi F MO = Some P \<Longrightarrow> P < next_inst (fst ?FU)"
    by (auto simp: the_phi_def split: if_splits)
  note c = case_loop_Insts_clone [OF 1 2 3 assms(2), of "Parent (Insts F MO)" "next_block F" "Suc (next_block F)"]
  have n: "next_inst (fst ?FU) = next_inst F + (if isVoidTy (Insts F MO) then 0 else 1)"
    by simp
  have c': "Insts (perform_rewrite F MO SV VDs A s) (next_inst (fst ?FU) + k) =
      setLength (ConstantInt (SizeIds s ! k)) ((Insts (fst ?FU) MO)\<lparr>Parent := next_block (fst ?FU) + k\<rparr>)"
    unfolding perform_rewrite_eq rewrite_finish_proj by (rule c)
  note e = c' [unfolded n]
  show "operands (Insts (perform_rewrite F MO SV VDs A s)
                      (next_inst F + (if isVoidTy (Insts F MO) then 0 else 1) + k)) =
           (operands (Insts (perform_rewrite F MO SV VDs A s) MO))[2 := ConstantInt (SizeIds s ! k)]"
    unfolding e rewrite_Insts_MO [OF assms(1)] by (simp add: setLength_def)
  show "iclass (Insts (perform_rewrite F MO SV VDs A s)
                      (next_inst F + (if isVoidTy (Insts F MO) then 0 else 1) + k)) = iclass (Insts F MO)"
    unfolding e using assms(1) by (simp add: setLength_def rewrite_phi_Insts_old)
qed

lemma rewrite_no_use:
  assumes MO: "MO < next_inst F" and nv: "\<not> isVoidTy (Insts F MO)" and i: "i \<noteq> next_inst F"
  shows "Inst MO \<notin> set (operands (Insts (perform_rewrite F MO SV VDs A s) i))"
proof -
  let ?F4 = "fst (rewrite_split F MO SV)"
  let ?F5 = "fst (rewrite_phi ?F4 MO (next_block F) (Suc (next_block F)))"
  let ?F7 = "rewrite_md ?F5 MO VDs s"
  let ?FU = "(?F7, [] :: (nat \<times> nat) list)"
  let ?F' = "perform_rewrite F MO SV VDs A s"
  have v: "\<not> isVoidTy (Insts ?F4 MO)" using nv by simp
  have ne: "Inst (next_inst F) \<noteq> Inst MO" using MO by simp
  have base: "Inst MO \<notin> set (operands (Insts ?F7 j))" if "j \<noteq> next_inst F" for j
    using that subst_operands [OF ne] by (simp add: rewrite_phi_Insts [OF v])
  have phi: "the_phi F MO \<noteq> Some i" using i by (simp add: the_phi_def)
  have n7: "next_inst (fst ?FU) = Suc (next_inst F)" using nv by simp
  consider "i < next_inst F" | "Suc (next_inst F) + length (SizeIds s) \<le> i"
    | k where "k < length (SizeIds s)" "i = Suc (next_inst F) + k"
    using i by (metis add.commute le_Suc_ex less_Suc_eq nat_add_left_cancel_less not_less)
  then show ?thesis
  proof cases
    case 1
    then have "Insts ?F' i = Insts ?F7 i"
      unfolding perform_rewrite_eq rewrite_finish_proj
      using case_loop_Insts_old [of i ?FU "the_phi F MO"] phi n7 by simp
    with base [OF i] show ?thesis by simp
  next
    case 2
    then have "Insts ?F' i = Insts ?F7 i"
      unfolding perform_rewrite_eq rewrite_finish_proj
      using case_loop_Insts_beyond [of ?FU "SizeIds s" i "the_phi F MO"] phi n7 by simp
    with base [OF i] show ?thesis by simp
  next
    case 3
    have "Inst MO \<notin> set (operands (Insts ?F' MO))"
      using MO nv subst_operands [OF ne] by (simp add: rewrite_MO_fields(3) [OF MO])
    moreover have "operands (Insts ?F' i) = (operands (Insts ?F' MO))[2 := ConstantInt (SizeIds s ! k)]"
      using rewrite_clone(1) [OF MO 3(1), of SV VDs A] nv 3(2) by simp
    ultimately show ?thesis
      using set_update_subset_insert [of "operands (Insts ?F' MO)" 2 "ConstantInt (SizeIds s ! k)"]
      by auto
  qed
qed

lemma rewrite_no_term_use:
  assumes MO: "MO < next_inst F" and nv: "\<not> isVoidTy (Insts F MO)"
    and BB: "Parent (Insts F MO) < next_block F"
  shows "Inst MO \<notin> set (term_uses (Terminator (Blocks (perform_rewrite F MO SV VDs A s) b)))"
proof (cases "b = Parent (Insts F MO)")
  case True
  show ?thesis
    unfolding True rewrite_switch [OF BB] using MO nv by (simp add: subst_val_def)
next
  case False
  let ?F4 = "fst (rewrite_split F MO SV)"
  let ?F5 = "fst (rewrite_phi ?F4 MO (next_block F) (Suc (next_block F)))"
  let ?F7 = "rewrite_md ?F5 MO VDs s"
  let ?FU = "(?F7, [] :: (nat \<times> nat) list)"
  let ?F' = "perform_rewrite F MO SV VDs A s"
  have ne: "Inst (next_inst F) \<noteq> Inst MO" using MO by simp
  have base: "Inst MO \<notin> set (term_uses (Terminator (Blocks ?F7 b)))"
    using nv subst_term_uses [OF ne] by (simp add: rewrite_phi_Terminator)
  consider "b < next_block F + 2" | "next_block F + 2 + length (SizeIds s) \<le> b"
    | k where "k < length (SizeIds s)" "b = next_block F + 2 + k"
    by (metis add.commute le_Suc_ex nat_add_left_cancel_less not_less)
  then show ?thesis
  proof cases
    case 1
    then have "Blocks (fst (case_loop MO (Parent (Insts F MO)) (next_block F) (Suc (next_block F))
           (the_phi F MO) (SizeIds s) ?FU)) b = Blocks ?F7 b"
      using case_loop_Blocks_old [of b ?FU "Parent (Insts F MO)"] False by simp
    then show ?thesis
      unfolding perform_rewrite_eq using base False by simp
  next
    case 2
    then have "Blocks (fst (case_loop MO (Parent (Insts F MO)) (next_block F) (Suc (next_block F))
           (the_phi F MO) (SizeIds s) ?FU)) b = Blocks ?F7 b"
      using case_loop_Blocks_beyond [of ?FU "SizeIds s" b "Parent (Insts F MO)"] False by simp
    then show ?thesis
      unfolding perform_rewrite_eq using base False by simp
  next
    case 3
    show ?thesis
      unfolding 3(2) rewrite_case_block(1) [OF BB 3(1)] by simp
  qed
qed

lemma rewrite_split_Parent:
  assumes "MO \<in> set (BBInsts (Blocks F (Parent (Insts F MO))))"
    and "distinct (BBInsts (Blocks F (Parent (Insts F MO))))"
    and "Parent (Insts F MO) < next_block F"
  shows "Parent (Insts (fst (rewrite_split F MO SV)) MO) = next_block F"
proof -
  let ?BB = "Parent (Insts F MO)"
  let ?xs = "BBInsts (Blocks F ?BB)"
  let ?moved = "drop (position MO ?xs) ?xs"
  have dw: "?moved = dropWhile (\<lambda>i. i \<noteq> MO) ?xs"
    by (simp add: position_def dropWhile_eq_drop)
  have ne: "?moved \<noteq> []" using assms(1) by (simp add: dw)
  have "hd ?moved = MO" using hd_dropWhile [of "\<lambda>i. i \<noteq> MO" ?xs] ne by (simp add: dw)
  then obtain rest where m: "?moved = MO # rest" using ne by (cases ?moved) auto
  have "distinct ?moved" using assms(2) by simp
  then have nr: "MO \<notin> set rest" by (simp add: m)
  note m' = m [unfolded position_def]
  have "drop (Suc (length (takeWhile (\<lambda>i. i \<noteq> MO) ?xs))) ?xs =
        tl (drop (length (takeWhile (\<lambda>i. i \<noteq> MO) ?xs)) ?xs)"
    by (simp add: drop_Suc tl_drop)
  then have d: "drop (Suc (length (takeWhile (\<lambda>i. i \<noteq> MO) ?xs))) ?xs = rest"
    by (simp add: m')
  show ?thesis
    using assms(3) nr
    by (simp add: rewrite_split_def SplitBlock_def Let_def setBlockFreq_def CreateSwitch_def m' d
        position_def)
qed

lemma rewrite_Parent:
  assumes "MO \<in> set (BBInsts (Blocks F (Parent (Insts F MO))))"
    and "distinct (BBInsts (Blocks F (Parent (Insts F MO))))"
    and "Parent (Insts F MO) < next_block F" and "MO < next_inst F"
  shows "Parent (Insts (perform_rewrite F MO SV VDs A s) MO) = next_block F"
  using assms(4) rewrite_split_Parent [OF assms(1-3)]
  by (simp add: rewrite_Insts_MO [OF assms(4)] rewrite_phi_Insts_old)

lemma getValueProfDataFromInst_Some:
  "MD_prof I = Some MD \<Longrightarrow> Kind MD = K \<Longrightarrow>
   getValueProfDataFromInst I K n = Some (take n (ValueData MD), TotalC MD)"
  by (simp add: getValueProfDataFromInst_def)

lemma perform_rewritten:
  assumes "\<not> isMemmove (Insts F MO)"
    and "MemOPOptMemcmpBcmp cfg \<or> \<not> (isMemcmp (Insts F MO) \<or> isBcmp (Insts F MO))"
    and "MD_prof (Insts F MO) = Some MD" and "Kind MD = IPVK_MemOPSize"
    and "VDs = take (unat (MemOPMaxVersion cfg + 2)) (ValueData MD)"
    and "(if MemOPScaleCount cfg then BlockProfileCount F (Parent (Insts F MO)) else Some (TotalC MD)) = Some A"
    and "\<not> A < ucast (MemOPCountThreshold cfg)" and "TotalC MD \<noteq> 0"
    and "plan_loop cfg A (TotalC MD) VDs (plan_init A (TotalC MD)) = Inr s"
    and "Version s \<noteq> 0" and "getLength (Insts F MO) = Inr SV"
  shows "perform cfg F MO = Inr (True, perform_rewrite F MO SV VDs A s)"
  using assms(1,2,6-11) unfolding assms(5)
  by (auto simp: perform_def getValueProfDataFromInst_Some [OF assms(3,4)])

lemma perform_TrueE:
  assumes "perform cfg F MO = Inr (True, F')"
  obtains VDs T A s SV where
    "getValueProfDataFromInst (Insts F MO) IPVK_MemOPSize (unat (MemOPMaxVersion cfg + 2)) = Some (VDs, T)"
    "plan_loop cfg A T VDs (plan_init A T) = Inr s" "Version s \<noteq> 0"
    "getLength (Insts F MO) = Inr SV" "F' = perform_rewrite F MO SV VDs A s"
  using assms unfolding perform_def Let_def
  by (auto split: if_splits option.splits sum.splits prod.splits)

lemma perform_False:
  "perform cfg F MO = Inr (False, F') \<Longrightarrow> F' = F"
  unfolding perform_def Let_def
  by (auto split: if_splits option.splits sum.splits prod.splits)

lemma sum_take_le:
  fixes xs :: "nat list"
  shows "sum_list (take n xs) \<le> sum_list xs"
proof -
  have "sum_list xs = sum_list (take n xs) + sum_list (drop n xs)"
    by (metis append_take_drop_id sum_list_append)
  then show ?thesis by simp
qed

section \<open>Properties of the planner\<close>

text \<open>
  Claim C3. Let the raw counts of the profile records sum to at most the raw total, the
  raw total be non-zero (\<^verbatim>\<open>perform\<close> has checked it), and the total planned against be
  the raw total unless scaling is on. Then the planning loop ends without a failed
  assertion, with or without scaling; the selected counts (\<open>CaseCounts\<close> without the
  slot of the default case) and the count left for the default case add up, as natural
  numbers, to the total planned against; and each selected count is at most what
  remained when it was accepted, the total minus the counts selected before it, so the
  remaining count never wraps below zero.
\<close>

theorem plan_counts_conserved:
  assumes "raw_sum VDs \<le> unat SavedTotalCount" and "SavedTotalCount \<noteq> 0"
    and "\<not> MemOPScaleCount cfg \<longrightarrow> ActualCount = SavedTotalCount"
  shows "\<exists>s. plan_loop cfg ActualCount SavedTotalCount VDs (plan_init ActualCount SavedTotalCount) = Inr s \<and>
           sum_list (map unat (tl (CaseCounts s))) + unat (RemainCount s) = unat ActualCount \<and>
           (\<forall>k<length (tl (CaseCounts s)).
               unat (tl (CaseCounts s) ! k) \<le>
                 unat ActualCount - sum_list (map unat (take k (tl (CaseCounts s)))))"
proof -
  let ?s0 = "plan_init ActualCount SavedTotalCount"
  have 1: "unat ActualCount * raw_sum VDs \<le> unat (RemainCount ?s0) * unat SavedTotalCount"
    using assms(1) by (simp add: plan_init_def)
  have 2: "raw_sum VDs \<le> unat (SavedRemainCount ?s0)"
    using assms(1) by (simp add: plan_init_def)
  from plan_loop_inv [OF assms(2,3) 1 2] obtain s cs where
    s: "plan_loop cfg ActualCount SavedTotalCount VDs ?s0 = Inr s"
    and cc: "CaseCounts s = CaseCounts ?s0 @ cs"
    and sum: "sum_list (map unat cs) + unat (RemainCount s) = unat (RemainCount ?s0)"
    by blast
  have tl: "tl (CaseCounts s) = cs" using cc by (simp add: plan_init_def)
  have total: "sum_list (map unat cs) + unat (RemainCount s) = unat ActualCount"
    using sum by (simp add: plan_init_def)
  have "unat (cs ! k) \<le> unat ActualCount - sum_list (map unat (take k cs))" if "k < length cs" for k
  proof -
    have "sum_list (map unat (take (Suc k) cs)) \<le> sum_list (map unat cs)"
      using sum_take_le [of "Suc k" "map unat cs"] by (simp add: take_map)
    moreover have "sum_list (map unat (take (Suc k) cs)) =
        sum_list (map unat (take k cs)) + unat (cs ! k)"
      using that by (simp add: take_Suc_conv_app_nth)
    ultimately show ?thesis using total by linarith
  qed
  then have "\<forall>k<length cs. unat (cs ! k) \<le> unat ActualCount - sum_list (map unat (take k cs))"
    by blast
  with s total show ?thesis
    by (intro exI [of _ s]) (simp add: tl)
qed

theorem plan_counts_conserved_witness:
  "raw_sum scenario_samples \<le> unat (10000 :: u64) \<and> (10000 :: u64) \<noteq> 0 \<and>
   MemOPScaleCount (scenario_config\<lparr>MemOPScaleCount := True\<rparr>) \<and>
   (\<exists>s. plan_loop (scenario_config\<lparr>MemOPScaleCount := True\<rparr>) 20000 10000 scenario_samples
           (plan_init 20000 10000) = Inr s \<and>
        sum_list (map unat (tl (CaseCounts s))) + unat (RemainCount s) = unat (20000 :: u64) \<and>
        (\<forall>k<length (tl (CaseCounts s)).
            unat (tl (CaseCounts s) ! k) \<le>
              unat (20000 :: u64) - sum_list (map unat (take k (tl (CaseCounts s))))))"
  using plan_counts_conserved [of scenario_samples 10000 "scenario_config\<lparr>MemOPScaleCount := True\<rparr>" 20000]
  by (simp add: raw_sum_def scenario_samples_def)

lemma scaled_if:
  "(if MemOPScaleCount cfg then getScaledCount cfg c A T else Inr c) = getScaledCount cfg c A T"
  by (simp add: getScaledCount_def)

lemma plan_loop_skip:
  "getScaledCount cfg (Count VD) A T = Inr C \<Longrightarrow> skipped cfg (Value VD) \<Longrightarrow>
   plan_loop cfg A T (VD # VDs) s = plan_loop cfg A T VDs s"
  by (simp add: scaled_if)

lemma plan_loop_reject:
  "getScaledCount cfg (Count VD) A T = Inr C \<Longrightarrow> \<not> skipped cfg (Value VD) \<Longrightarrow>
   C \<le> RemainCount s \<Longrightarrow>
   \<not> (ucast (MemOPCountThreshold cfg) \<le> C \<and>
      RemainCount s * ucast (MemOPPercentThreshold cfg) div 100 \<le> C) \<Longrightarrow>
   plan_loop cfg A T (VD # VDs) s = Inr s"
  by (auto simp: scaled_if isProfitable_eq)

lemma plan_loop_accept:
  "getScaledCount cfg (Count VD) A T = Inr C \<Longrightarrow> \<not> skipped cfg (Value VD) \<Longrightarrow>
   C \<le> RemainCount s \<Longrightarrow> Count VD \<le> SavedRemainCount s \<Longrightarrow>
   ucast (MemOPCountThreshold cfg) \<le> C \<Longrightarrow>
   RemainCount s * ucast (MemOPPercentThreshold cfg) div 100 \<le> C \<Longrightarrow>
   plan_loop cfg A T (VD # VDs) s =
     (if unat (MemOPMaxVersion cfg) < Suc (Version s) \<and> MemOPMaxVersion cfg \<noteq> 0
      then Inr (accept (Value VD) C (Count VD) s)
      else plan_loop cfg A T VDs (accept (Value VD) C (Count VD) s))"
  by (simp add: scaled_if isProfitable_eq Let_def) (simp add: accept_def)

lemma percent_no_overflow:
  fixes R :: u64 and p :: u32
  assumes "unat R * unat p < 2 ^ 64"
  shows "unat (R * ucast p div 100) = unat R * unat p div 100"
proof -
  have "uint (ucast p :: u64) = uint p"
    by (rule uint_up_ucast) (simp add: is_up)
  then have "unat (ucast p :: u64) = unat p"
    by (simp only: unat_eq_nat_uint)
  with assms have "unat R * unat (ucast p :: u64) < 2 ^ LENGTH(64)"
    by simp
  then have "unat (R * ucast p) = unat R * unat (ucast p :: u64)"
    by (simp only: unat_mult_lem)
  with \<open>unat (ucast p :: u64) = unat p\<close> have "unat (R * ucast p) = unat R * unat p"
    by simp
  then show ?thesis by (simp add: unat_div)
qed

lemma perform_percent_70:
  assumes "MemOPPercentThreshold cfg = 70" and "\<not> MemOPScaleCount cfg"
    and "MD_prof (Insts F MO) = Some MD" and "TotalC MD = 10000"
    and "ValueData MD = VD # rest" and "Count VD = 6000" and "\<not> skipped cfg (Value VD)"
  shows "plan_loop cfg 10000 10000 (VD # VDs) (plan_init 10000 10000) = Inr (plan_init 10000 10000)"
    and "perform cfg F MO = Inr (False, F)"
proof -
  have sc: "getScaledCount cfg (Count VD) 10000 10000 = Inr 6000"
    using assms(2,6) by (simp add: getScaledCount_def)
  have np: "\<not> (ucast (MemOPCountThreshold cfg) \<le> (6000 :: u64) \<and>
      RemainCount (plan_init 10000 10000) * ucast (MemOPPercentThreshold cfg) div 100 \<le> (6000 :: u64))"
    by (simp add: assms(1) plan_init_def)
  show p: "plan_loop cfg 10000 10000 (VD # VDs) (plan_init 10000 10000) = Inr (plan_init 10000 10000)" for VDs
    by (rule plan_loop_reject [OF sc assms(7) _ np]) (simp add: plan_init_def)
  have v0: "Version (plan_init 10000 10000) = 0" by (simp add: plan_init_def)
  have "plan_loop cfg 10000 10000 (take n (VD # rest)) (plan_init 10000 10000) = Inr (plan_init 10000 10000)" for n
    by (cases n) (simp_all add: p del: plan_loop.simps(2))
  then show "perform cfg F MO = Inr (False, F)"
    using assms(2-5) v0
    by (simp add: perform_def getValueProfDataFromInst_def Let_def)
qed

text \<open>
  The profitability test and one turn of the loop, in the arithmetic of the code. The
  test (on a count that is at most the remaining count, as the assertion of
  \<^verbatim>\<open>isProfitable\<close> demands) succeeds if and only if the scaled count is at least the
  count threshold and at least \<^verbatim>\<open>remaining * percent / 100\<close>, the product and quotient
  being those of 64-bit unsigned arithmetic; they are the exact ones whenever the
  product fits in 64 bits. In the loop, a record that fails the value-kind filter is
  skipped and the loop goes on with the later records; the first record that passes the
  filter and fails the profitability test ends the loop, whatever records follow; a
  record that passes both is accepted: its value and scaled count are appended to the
  plan, the scaled count is taken off the remaining count and the raw count off the
  saved one, and the number of versions goes up by one. With raw total 10000, a first
  record of count 6000 that passes the filter, percent threshold 70 and no scaling, no
  version is accepted and \<^verbatim>\<open>perform\<close> returns false, leaving the function as it was.
\<close>

theorem profitability_and_stop:
  "(count \<le> total_count \<longrightarrow>
      isProfitable cfg count total_count =
        Inr (ucast (MemOPCountThreshold cfg) \<le> count \<and>
             total_count * ucast (MemOPPercentThreshold cfg) div 100 \<le> count)) \<and>
   (unat total_count * unat (MemOPPercentThreshold cfg) < 2 ^ 64 \<longrightarrow>
      unat (total_count * ucast (MemOPPercentThreshold cfg) div 100) =
        unat total_count * unat (MemOPPercentThreshold cfg) div 100) \<and>
   (getScaledCount cfg (Count VD) A T = Inr C \<and> skipped cfg (Value VD) \<longrightarrow>
      plan_loop cfg A T (VD # VDs) s = plan_loop cfg A T VDs s) \<and>
   (getScaledCount cfg (Count VD) A T = Inr C \<and> \<not> skipped cfg (Value VD) \<and>
    C \<le> RemainCount s \<and>
    \<not> (ucast (MemOPCountThreshold cfg) \<le> C \<and>
       RemainCount s * ucast (MemOPPercentThreshold cfg) div 100 \<le> C) \<longrightarrow>
      plan_loop cfg A T (VD # VDs) s = Inr s) \<and>
   (getScaledCount cfg (Count VD) A T = Inr C \<and> \<not> skipped cfg (Value VD) \<and>
    C \<le> RemainCount s \<and> Count VD \<le> SavedRemainCount s \<and>
    ucast (MemOPCountThreshold cfg) \<le> C \<and>
    RemainCount s * ucast (MemOPPercentThreshold cfg) div 100 \<le> C \<longrightarrow>
      plan_loop cfg A T (VD # VDs) s =
        (if unat (MemOPMaxVersion cfg) < Suc (Version s) \<and> MemOPMaxVersion cfg \<noteq> 0
         then Inr (accept (Value VD) C (Count VD) s)
         else plan_loop cfg A T VDs (accept (Value VD) C (Count VD) s))) \<and>
   (MemOPPercentThreshold cfg = 70 \<and> \<not> MemOPScaleCount cfg \<and>
    MD_prof (Insts F MO) = Some MD \<and> TotalC MD = 10000 \<and> ValueData MD = VD # VDs \<and>
    Count VD = 6000 \<and> \<not> skipped cfg (Value VD) \<longrightarrow>
      plan_loop cfg 10000 10000 (VD # VDs) (plan_init 10000 10000) = Inr (plan_init 10000 10000) \<and>
      Version (plan_init 10000 10000) = 0 \<and>
      perform cfg F MO = Inr (False, F)) \<and>
   SizeIds (accept (Value VD) C (Count VD) s) = SizeIds s @ [Value VD] \<and>
   CaseCounts (accept (Value VD) C (Count VD) s) = CaseCounts s @ [C] \<and>
   RemainCount (accept (Value VD) C (Count VD) s) = RemainCount s - C \<and>
   SavedRemainCount (accept (Value VD) C (Count VD) s) = SavedRemainCount s - Count VD \<and>
   MaxCount (accept (Value VD) C (Count VD) s) = (if MaxCount s < C then C else MaxCount s) \<and>
   Version (accept (Value VD) C (Count VD) s) = Suc (Version s)"
proof (intro conjI impI; (elim conjE)?)
  show "SizeIds (accept (Value VD) C (Count VD) s) = SizeIds s @ [Value VD]"
    "CaseCounts (accept (Value VD) C (Count VD) s) = CaseCounts s @ [C]"
    "RemainCount (accept (Value VD) C (Count VD) s) = RemainCount s - C"
    "SavedRemainCount (accept (Value VD) C (Count VD) s) = SavedRemainCount s - Count VD"
    "MaxCount (accept (Value VD) C (Count VD) s) = (if MaxCount s < C then C else MaxCount s)"
    "Version (accept (Value VD) C (Count VD) s) = Suc (Version s)"
    by (simp_all add: accept_def)
  show "isProfitable cfg count total_count =
        Inr (ucast (MemOPCountThreshold cfg) \<le> count \<and>
             total_count * ucast (MemOPPercentThreshold cfg) div 100 \<le> count)"
    if "count \<le> total_count"
    using that by (rule isProfitable_eq)
  show "unat (total_count * ucast (MemOPPercentThreshold cfg) div 100) =
        unat total_count * unat (MemOPPercentThreshold cfg) div 100"
    if "unat total_count * unat (MemOPPercentThreshold cfg) < 2 ^ 64"
    using that by (rule percent_no_overflow)
  show "plan_loop cfg A T (VD # VDs) s = plan_loop cfg A T VDs s"
    if "getScaledCount cfg (Count VD) A T = Inr C" "skipped cfg (Value VD)"
    using that by (rule plan_loop_skip)
  show "plan_loop cfg A T (VD # VDs) s = Inr s"
    if "getScaledCount cfg (Count VD) A T = Inr C" "\<not> skipped cfg (Value VD)"
      "C \<le> RemainCount s"
      "\<not> (ucast (MemOPCountThreshold cfg) \<le> C \<and>
         RemainCount s * ucast (MemOPPercentThreshold cfg) div 100 \<le> C)"
    using that by (rule plan_loop_reject)
  show "plan_loop cfg A T (VD # VDs) s =
        (if unat (MemOPMaxVersion cfg) < Suc (Version s) \<and> MemOPMaxVersion cfg \<noteq> 0
         then Inr (accept (Value VD) C (Count VD) s)
         else plan_loop cfg A T VDs (accept (Value VD) C (Count VD) s))"
    if "getScaledCount cfg (Count VD) A T = Inr C" "\<not> skipped cfg (Value VD)"
      "C \<le> RemainCount s" "Count VD \<le> SavedRemainCount s"
      "ucast (MemOPCountThreshold cfg) \<le> C"
      "RemainCount s * ucast (MemOPPercentThreshold cfg) div 100 \<le> C"
    using that by (rule plan_loop_accept)
  show "Version (plan_init 10000 10000) = 0"
    by (simp add: plan_init_def)
  assume h: "MemOPPercentThreshold cfg = 70" "\<not> MemOPScaleCount cfg"
    "MD_prof (Insts F MO) = Some MD" "TotalC MD = 10000" "ValueData MD = VD # VDs"
    "Count VD = 6000" "\<not> skipped cfg (Value VD)"
  show "plan_loop cfg 10000 10000 (VD # VDs) (plan_init 10000 10000) = Inr (plan_init 10000 10000)"
    using h by (rule perform_percent_70(1))
  show "perform cfg F MO = Inr (False, F)"
    using h by (rule perform_percent_70(2))
qed

theorem profitability_and_stop_witness:
  "isProfitable scenario_config 6000 10000 = Inr True \<and>
   isProfitable (scenario_config\<lparr>MemOPPercentThreshold := 70\<rparr>) 6000 10000 = Inr False \<and>
   unat (10000 * ucast (MemOPPercentThreshold scenario_config) div 100 :: u64) = 4000 \<and>
   skipped scenario_config 1000 \<and>
   plan_loop scenario_config 10000 10000 (\<lparr>Value = 1000, Count = 1000\<rparr> # scenario_samples)
       (plan_init 10000 10000) =
     plan_loop scenario_config 10000 10000 scenario_samples (plan_init 10000 10000) \<and>
   plan_loop (scenario_config\<lparr>MemOPPercentThreshold := 70\<rparr>) 10000 10000
       (\<lparr>Value = 16, Count = 6000\<rparr> # tl scenario_samples) (plan_init 10000 10000) =
     Inr (plan_init 10000 10000) \<and>
   plan_loop scenario_config 10000 10000 (\<lparr>Value = 16, Count = 6000\<rparr> # tl scenario_samples)
       (plan_init 10000 10000) =
     plan_loop scenario_config 10000 10000 (tl scenario_samples)
       (accept 16 6000 6000 (plan_init 10000 10000)) \<and>
   perform (scenario_config\<lparr>MemOPPercentThreshold := 70\<rparr>)
       (call_site (MemIntrinsic Intrinsic_memcpy) True scenario_samples 10000) 1 =
     Inr (False, call_site (MemIntrinsic Intrinsic_memcpy) True scenario_samples 10000)"
proof -
  note t = profitability_and_stop
  let ?c70 = "scenario_config\<lparr>MemOPPercentThreshold := 70\<rparr>"
  let ?F = "call_site (MemIntrinsic Intrinsic_memcpy) True scenario_samples 10000"
  let ?MD = "\<lparr>Kind = IPVK_MemOPSize, TotalC = 10000, ValueData = scenario_samples\<rparr>"
  have s16: "\<not> skipped scenario_config 16" "\<not> skipped ?c70 16"
    and s1000: "skipped scenario_config 1000"
    by (simp_all add: skipped_def scenario_config_def)
  have g: "getScaledCount scenario_config c 10000 10000 = Inr c"
    "getScaledCount ?c70 c 10000 10000 = Inr c" for c
    by (simp_all add: getScaledCount_def scenario_config_def)
  have 1: "isProfitable scenario_config 6000 10000 = Inr True"
    using t [THEN conjunct1, of 6000 10000 scenario_config]
    by (simp add: scenario_config_def)
  have 2: "isProfitable ?c70 6000 10000 = Inr False"
    using t [THEN conjunct1, of 6000 10000 ?c70]
    by (simp add: scenario_config_def)
  have 3: "unat (10000 * ucast (MemOPPercentThreshold scenario_config) div 100 :: u64) = 4000"
    using t [THEN conjunct2, THEN conjunct1, of 10000 scenario_config]
    by (simp add: scenario_config_def)
  have 4: "plan_loop scenario_config 10000 10000 (\<lparr>Value = 1000, Count = 1000\<rparr> # scenario_samples)
       (plan_init 10000 10000) =
     plan_loop scenario_config 10000 10000 scenario_samples (plan_init 10000 10000)"
    using t [THEN conjunct2, THEN conjunct2, THEN conjunct1,
        of scenario_config "\<lparr>Value = 1000, Count = 1000\<rparr>" 10000 10000 1000 scenario_samples
           "plan_init 10000 10000"] s1000 g
    by simp
  have 5: "plan_loop ?c70 10000 10000 (\<lparr>Value = 16, Count = 6000\<rparr> # tl scenario_samples)
       (plan_init 10000 10000) = Inr (plan_init 10000 10000)"
    using t [THEN conjunct2, THEN conjunct2, THEN conjunct2, THEN conjunct1,
        of ?c70 "\<lparr>Value = 16, Count = 6000\<rparr>" 10000 10000 6000 "plan_init 10000 10000"
           "tl scenario_samples"] s16 g
    by (simp add: plan_init_def scenario_config_def)
  have 6: "plan_loop scenario_config 10000 10000 (\<lparr>Value = 16, Count = 6000\<rparr> # tl scenario_samples)
       (plan_init 10000 10000) =
     plan_loop scenario_config 10000 10000 (tl scenario_samples)
       (accept 16 6000 6000 (plan_init 10000 10000))"
    using t [THEN conjunct2, THEN conjunct2, THEN conjunct2, THEN conjunct2, THEN conjunct1,
        of scenario_config "\<lparr>Value = 16, Count = 6000\<rparr>" 10000 10000 6000 "plan_init 10000 10000"
           "tl scenario_samples"] s16 g
    by (simp add: plan_init_def scenario_config_def)
  have 7: "perform ?c70 ?F 1 = Inr (False, ?F)"
    using t [THEN conjunct2, THEN conjunct2, THEN conjunct2, THEN conjunct2, THEN conjunct2,
        THEN conjunct1, of ?c70 ?F 1 ?MD "\<lparr>Value = 16, Count = 6000\<rparr>" "tl scenario_samples"] s16
    by (simp add: scenario_samples_def scenario_config_def call_site_def)
  from 1 2 3 4 5 6 7 s1000 show ?thesis by blast
qed

lemma overflow_plan_loop:
  "plan_loop scenario_config 461168601842738791 461168601842738791 overflow_samples
     (plan_init 461168601842738791 461168601842738791) = Inr overflow_plan"
  by (simp add: scenario_config_def overflow_samples_def plan_init_def skipped_def
      isProfitable_def accept_def overflow_plan_def)

text \<open>
  Claim C4. The claim takes \<^verbatim>\<open>remaining * percent / 100\<close> as a number. The code forms the
  product in 64 bits without a guard (line 312), unlike \<^verbatim>\<open>getScaledCount\<close>, which
  saturates its product. With count threshold 1000, percent threshold 40, no scaling
  and the single record (16, 1000) of raw total 461168601842738791, the product wraps
  to 24 and the quotient is 0, so the record passes the test and \<^verbatim>\<open>perform\<close> creates a
  case block for size 16, although 1000 is far below 40 percent of the remaining count,
  184467440737095516.
\<close>

theorem percent_test_wraps:
  "MemOPCountThreshold scenario_config = 1000 \<and> MemOPPercentThreshold scenario_config = 40 \<and>
   \<not> MemOPScaleCount scenario_config \<and>
   isProfitable scenario_config 1000 461168601842738791 = Inr True \<and>
   (461168601842738791 * ucast (MemOPPercentThreshold scenario_config) div 100 :: u64) = 0 \<and>
   unat (461168601842738791 :: u64) * unat (MemOPPercentThreshold scenario_config) div 100 =
     184467440737095516 \<and>
   unat (1000 :: u64) < 184467440737095516 \<and>
   perform scenario_config overflow_site 1 = Inr (True, overflow_rewritten) \<and>
   switch_cases (Terminator (Blocks overflow_rewritten 0)) = [(16, 3)]"
proof -
  let ?T = "461168601842738791 :: u64"
  let ?MD = "\<lparr>Kind = IPVK_MemOPSize, TotalC = ?T, ValueData = overflow_samples\<rparr>"
  have c: "MemOPCountThreshold scenario_config = 1000" "MemOPPercentThreshold scenario_config = 40"
    "\<not> MemOPScaleCount scenario_config"
    by (simp_all add: scenario_config_def)
  have ip: "isProfitable scenario_config 1000 ?T = Inr True"
    by (simp add: isProfitable_def scenario_config_def)
  have w: "(?T * ucast (MemOPPercentThreshold scenario_config) div 100 :: u64) = 0"
    by (simp add: scenario_config_def)
  have e: "unat ?T * unat (MemOPPercentThreshold scenario_config) div 100 = 184467440737095516"
    by (simp add: scenario_config_def)
  have l: "unat (1000 :: u64) < 184467440737095516" by simp
  have p: "perform scenario_config overflow_site 1 = Inr (True, overflow_rewritten)"
    unfolding overflow_rewritten_def
  proof (rule perform_rewritten [where MD = ?MD])
    show "plan_loop scenario_config ?T (TotalC ?MD) overflow_samples (plan_init ?T (TotalC ?MD)) =
      Inr overflow_plan"
      using overflow_plan_loop by simp
  qed (auto simp: overflow_site_def call_site_def isMemmove_def isMemcmp_def isBcmp_def
      scenario_config_def overflow_samples_def overflow_plan_def getLength_def getArgOperand_def)
  have b: "Parent (Insts overflow_site 1) < next_block overflow_site"
    by (simp add: overflow_site_def call_site_def)
  have v: "Parent (Insts overflow_site 1) = 0" "next_block overflow_site = 1"
    "isVoidTy (Insts overflow_site 1)"
    by (simp_all add: overflow_site_def call_site_def)
  have sw: "switch_cases (Terminator (Blocks overflow_rewritten 0)) = [(16, 3)]"
    using rewrite_switch [OF b, of "Inst 0" overflow_samples ?T overflow_plan] v
    by (simp add: overflow_rewritten_def overflow_plan_def upt_rec)
  from c ip w e l p sw show ?thesis by blast
qed

lemma plan_loop_raw:
  "\<not> MemOPScaleCount cfg \<Longrightarrow> plan_loop cfg A T VDs s = plan_loop cfg A' T' VDs s"
  by (induction VDs arbitrary: s) (simp_all add: Let_def split: sum.splits bool.splits)

lemma getLength_error: "getLength I = Inl e \<Longrightarrow> e = AssertionFailure"
  by (auto simp: getLength_def getArgOperand_def split: inst_class.splits if_splits)

lemma perform_no_div: "perform cfg F MO \<noteq> Inl DivisionByZero"
proof
  assume "perform cfg F MO = Inl DivisionByZero"
  then show False
    unfolding perform_def Let_def
    using plan_loop_no_div getLength_error
    by (fastforce split: if_splits option.splits sum.splits prod.splits)
qed

text \<open>
  Claim C9. With count scaling off the scaled count is the raw count, and the planning
  loop does not depend on the two totals. With scaling on (and a non-zero denominator)
  it is the saturating product of the raw count and the numerator, divided by the
  denominator: as a number, the smaller of the exact product and \<open>2 ^ 64 - 1\<close>, divided
  by the denominator. \<^verbatim>\<open>perform\<close> never divides by zero: the raw total, which is the
  denominator, has been checked before the loop runs.
\<close>

theorem scaled_count:
  "(\<not> MemOPScaleCount cfg \<longrightarrow>
      getScaledCount cfg count Num Denom = Inr count \<and>
      plan_loop cfg A T VDs s = plan_loop cfg A' T' VDs s) \<and>
   (MemOPScaleCount cfg \<and> Denom \<noteq> 0 \<longrightarrow>
      getScaledCount cfg count Num Denom = Inr (SaturatingMultiply count Num div Denom) \<and>
      unat (SaturatingMultiply count Num div Denom) =
        min (unat count * unat Num) (2 ^ 64 - 1) div unat Denom) \<and>
   perform cfg F MO \<noteq> Inl DivisionByZero"
proof (intro conjI impI; (elim conjE)?)
  show "getScaledCount cfg count Num Denom = Inr count" if "\<not> MemOPScaleCount cfg"
    using that by (simp add: getScaledCount_def)
  show "plan_loop cfg A T VDs s = plan_loop cfg A' T' VDs s" if "\<not> MemOPScaleCount cfg"
    using that by (rule plan_loop_raw)
  show "getScaledCount cfg count Num Denom = Inr (SaturatingMultiply count Num div Denom)"
    if "MemOPScaleCount cfg" "Denom \<noteq> 0"
    using that by (simp add: getScaledCount_def)
  show "unat (SaturatingMultiply count Num div Denom) =
        min (unat count * unat Num) (2 ^ 64 - 1) div unat Denom"
    by (simp only: unat_div unat_SaturatingMultiply)
  show "perform cfg F MO \<noteq> Inl DivisionByZero"
    by (rule perform_no_div)
qed

theorem scaled_count_witness:
  "getScaledCount scenario_config 6000 20000 10000 = Inr 6000 \<and>
   plan_loop scenario_config 20000 10000 scenario_samples (plan_init 10000 10000) =
     plan_loop scenario_config 10000 10000 scenario_samples (plan_init 10000 10000) \<and>
   getScaledCount (scenario_config\<lparr>MemOPScaleCount := True\<rparr>) 6000 20000 10000 = Inr 12000 \<and>
   getScaledCount (scenario_config\<lparr>MemOPScaleCount := True\<rparr>) 9223372036854775808 4 2 = Inr 9223372036854775807 \<and>
   perform (scenario_config\<lparr>MemOPScaleCount := True\<rparr>)
     (call_site (MemIntrinsic Intrinsic_memcpy) True scenario_samples 0) 1 \<noteq> Inl DivisionByZero"
proof -
  note t = scaled_count
  let ?cs = "scenario_config\<lparr>MemOPScaleCount := True\<rparr>"
  have ns: "\<not> MemOPScaleCount scenario_config" by (simp add: scenario_config_def)
  have 1: "getScaledCount scenario_config 6000 20000 10000 = Inr 6000"
    using t [THEN conjunct1, of scenario_config 6000 20000 10000] ns by simp
  have 2: "plan_loop scenario_config 20000 10000 scenario_samples (plan_init 10000 10000) =
     plan_loop scenario_config 10000 10000 scenario_samples (plan_init 10000 10000)"
    using t [THEN conjunct1, of scenario_config _ _ _ 20000 10000 scenario_samples
        "plan_init 10000 10000" 10000 10000] ns by simp
  have sm: "SaturatingMultiply 6000 20000 = (120000000 :: u64)"
    "SaturatingMultiply 9223372036854775808 4 = (- 1 :: u64)"
    by (simp_all add: SaturatingMultiply_def)
  have 3: "getScaledCount ?cs 6000 20000 10000 = Inr 12000"
    using t [THEN conjunct2, THEN conjunct1, of ?cs 10000 6000 20000] by (simp add: sm)
  have 4: "getScaledCount ?cs 9223372036854775808 4 2 = Inr 9223372036854775807"
    using t [THEN conjunct2, THEN conjunct1, of ?cs 2 9223372036854775808 4] by (simp add: sm)
  have 5: "perform ?cs (call_site (MemIntrinsic Intrinsic_memcpy) True scenario_samples 0) 1
      \<noteq> Inl DivisionByZero"
    using t [THEN conjunct2, THEN conjunct2] .
  from 1 2 3 4 5 show ?thesis by blast
qed

section \<open>Properties of \<^verbatim>\<open>perform\<close>\<close>

text \<open>
  Claim C8. In each of these cases \<^verbatim>\<open>perform\<close> returns false without an error and
  leaves the function as it was: the operation is a move; comparison specialisation is
  off and the call is a \<^verbatim>\<open>memcmp\<close> or \<^verbatim>\<open>bcmp\<close>; the call has no profile; scaling is on
  and the block has no profile count; the total planned against is below the count
  threshold; the raw total of the profile is zero (whatever the options and the rest of
  the input); the planning loop ends with no version accepted.
\<close>

theorem not_applicable_skips:
  assumes "isMemmove (Insts F MO) \<or>
     (\<not> MemOPOptMemcmpBcmp cfg \<and> (isMemcmp (Insts F MO) \<or> isBcmp (Insts F MO))) \<or>
     MD_prof (Insts F MO) = None \<or>
     (MemOPScaleCount cfg \<and> BlockProfileCount F (Parent (Insts F MO)) = None) \<or>
     (MD_prof (Insts F MO) = Some MD \<and>
      (if MemOPScaleCount cfg then BlockProfileCount F (Parent (Insts F MO))
       else Some (TotalC MD)) = Some A \<and>
      A < ucast (MemOPCountThreshold cfg)) \<or>
     (MD_prof (Insts F MO) = Some MD \<and> TotalC MD = 0) \<or>
     (MD_prof (Insts F MO) = Some MD \<and>
      (if MemOPScaleCount cfg then BlockProfileCount F (Parent (Insts F MO))
       else Some (TotalC MD)) = Some A \<and>
      plan_loop cfg A (TotalC MD) (take (unat (MemOPMaxVersion cfg + 2)) (ValueData MD))
        (plan_init A (TotalC MD)) = Inr s \<and>
      Version s = 0)"
  shows "perform cfg F MO = Inr (False, F)"
  using assms unfolding perform_def Let_def getValueProfDataFromInst_def
  by (auto split: option.splits if_splits)

theorem not_applicable_skips_witness:
  "perform scenario_config (call_site (MemIntrinsic Intrinsic_memmove) True scenario_samples 10000) 1 =
     Inr (False, call_site (MemIntrinsic Intrinsic_memmove) True scenario_samples 10000) \<and>
   perform (scenario_config\<lparr>MemOPOptMemcmpBcmp := False\<rparr>)
       (call_site (CallInst (Some LibFunc_memcmp)) False scenario_samples 10000) 1 =
     Inr (False, call_site (CallInst (Some LibFunc_memcmp)) False scenario_samples 10000) \<and>
   perform scenario_config (call_site (MemIntrinsic Intrinsic_memcpy) True scenario_samples 10000) 0 =
     Inr (False, call_site (MemIntrinsic Intrinsic_memcpy) True scenario_samples 10000) \<and>
   perform (scenario_config\<lparr>MemOPScaleCount := True\<rparr>)
       ((call_site (MemIntrinsic Intrinsic_memcpy) True scenario_samples 10000)
          \<lparr>BlockProfileCount := (\<lambda>b. None)\<rparr>) 1 =
     Inr (False, (call_site (MemIntrinsic Intrinsic_memcpy) True scenario_samples 10000)
          \<lparr>BlockProfileCount := (\<lambda>b. None)\<rparr>) \<and>
   perform scenario_config
       (call_site (MemIntrinsic Intrinsic_memcpy) True [\<lparr>Value = 16, Count = 300\<rparr>] 500) 1 =
     Inr (False, call_site (MemIntrinsic Intrinsic_memcpy) True [\<lparr>Value = 16, Count = 300\<rparr>] 500) \<and>
   perform (scenario_config\<lparr>MemOPScaleCount := True\<rparr>)
       (call_site (MemIntrinsic Intrinsic_memcpy) True scenario_samples 0) 1 =
     Inr (False, call_site (MemIntrinsic Intrinsic_memcpy) True scenario_samples 0) \<and>
   perform (scenario_config\<lparr>MemOPPercentThreshold := 70\<rparr>)
       (call_site (MemIntrinsic Intrinsic_memcpy) True scenario_samples 10000) 1 =
     Inr (False, call_site (MemIntrinsic Intrinsic_memcpy) True scenario_samples 10000)"
proof -
  note t = not_applicable_skips
  let ?cpy = "MemIntrinsic Intrinsic_memcpy"
  have 1: "perform scenario_config (call_site (MemIntrinsic Intrinsic_memmove) True scenario_samples 10000) 1 =
     Inr (False, call_site (MemIntrinsic Intrinsic_memmove) True scenario_samples 10000)"
    by (rule t) (simp add: isMemmove_def call_site_def)
  have 2: "perform (scenario_config\<lparr>MemOPOptMemcmpBcmp := False\<rparr>)
       (call_site (CallInst (Some LibFunc_memcmp)) False scenario_samples 10000) 1 =
     Inr (False, call_site (CallInst (Some LibFunc_memcmp)) False scenario_samples 10000)"
    by (rule t) (simp add: isMemmove_def isMemcmp_def call_site_def)
  have 3: "perform scenario_config (call_site ?cpy True scenario_samples 10000) 0 =
     Inr (False, call_site ?cpy True scenario_samples 10000)"
    by (rule t) (simp add: isMemmove_def isMemcmp_def isBcmp_def call_site_def)
  have 4: "perform (scenario_config\<lparr>MemOPScaleCount := True\<rparr>)
       ((call_site ?cpy True scenario_samples 10000)\<lparr>BlockProfileCount := (\<lambda>b. None)\<rparr>) 1 =
     Inr (False, (call_site ?cpy True scenario_samples 10000)\<lparr>BlockProfileCount := (\<lambda>b. None)\<rparr>)"
    by (rule t) (simp add: isMemmove_def isMemcmp_def isBcmp_def call_site_def)
  have 5: "perform scenario_config (call_site ?cpy True [\<lparr>Value = 16, Count = 300\<rparr>] 500) 1 =
     Inr (False, call_site ?cpy True [\<lparr>Value = 16, Count = 300\<rparr>] 500)"
    by (rule t [where A = 500
          and MD = "\<lparr>Kind = IPVK_MemOPSize, TotalC = 500, ValueData = [\<lparr>Value = 16, Count = 300\<rparr>]\<rparr>"])
       (simp add: isMemmove_def isMemcmp_def isBcmp_def call_site_def scenario_config_def)
  have 6: "perform (scenario_config\<lparr>MemOPScaleCount := True\<rparr>)
       (call_site ?cpy True scenario_samples 0) 1 =
     Inr (False, call_site ?cpy True scenario_samples 0)"
    by (rule t [where MD = "\<lparr>Kind = IPVK_MemOPSize, TotalC = 0, ValueData = scenario_samples\<rparr>"])
       (simp add: isMemmove_def isMemcmp_def isBcmp_def call_site_def scenario_config_def)
  have 7: "perform (scenario_config\<lparr>MemOPPercentThreshold := 70\<rparr>)
       (call_site ?cpy True scenario_samples 10000) 1 =
     Inr (False, call_site ?cpy True scenario_samples 10000)"
    by (rule t [where A = 10000 and s = "plan_init 10000 10000"
          and MD = "\<lparr>Kind = IPVK_MemOPSize, TotalC = 10000, ValueData = scenario_samples\<rparr>"])
       (simp add: isMemmove_def isMemcmp_def isBcmp_def call_site_def scenario_config_def
          scenario_samples_def skipped_def isProfitable_def plan_init_def)
  from 1 2 3 4 5 6 7 show ?thesis by blast
qed

section \<open>Properties of the rewrite\<close>

lemma rewrite_old_operands:
  assumes "i < next_inst F"
  shows "operands (Insts (perform_rewrite F MO SV VDs A s) i) =
     (if isVoidTy (Insts F MO) then operands (Insts F i)
      else map (subst_val (Inst MO) (Inst (next_inst F))) (operands (Insts F i)))"
proof -
  let ?F4 = "fst (rewrite_split F MO SV)"
  let ?F5 = "fst (rewrite_phi ?F4 MO (next_block F) (Suc (next_block F)))"
  let ?F7 = "rewrite_md ?F5 MO VDs s"
  let ?FU = "(?F7, [] :: (nat \<times> nat) list)"
  have "the_phi F MO \<noteq> Some i" using assms by (simp add: the_phi_def)
  moreover have "i < next_inst (fst ?FU)" using assms by simp
  ultimately have "Insts (perform_rewrite F MO SV VDs A s) i = Insts ?F7 i"
    unfolding perform_rewrite_eq
    using case_loop_Insts_old [of i ?FU "the_phi F MO"] by simp
  then show ?thesis using assms by (simp add: rewrite_phi_Insts_old)
qed

lemma rewrite_old_terminator:
  assumes "b < next_block F" and "b \<noteq> Parent (Insts F MO)"
  shows "Terminator (Blocks (perform_rewrite F MO SV VDs A s) b) =
     (if isVoidTy (Insts F MO) then Terminator (Blocks F b)
      else subst_term (Inst MO) (Inst (next_inst F)) (Terminator (Blocks F b)))"
proof -
  let ?F4 = "fst (rewrite_split F MO SV)"
  let ?F5 = "fst (rewrite_phi ?F4 MO (next_block F) (Suc (next_block F)))"
  let ?F7 = "rewrite_md ?F5 MO VDs s"
  let ?FU = "(?F7, [] :: (nat \<times> nat) list)"
  have "Blocks (fst (case_loop MO (Parent (Insts F MO)) (next_block F) (Suc (next_block F))
           (the_phi F MO) (SizeIds s) ?FU)) b = Blocks ?F7 b"
    using case_loop_Blocks_old [of b ?FU "Parent (Insts F MO)"] assms by simp
  then show ?thesis
    unfolding perform_rewrite_eq using assms
    by (simp add: rewrite_phi_Terminator rewrite_split_term_other)
qed

lemma rewrite_merge_terminator:
  assumes "Parent (Insts F MO) < next_block F"
  shows "Terminator (Blocks (perform_rewrite F MO SV VDs A s) (Suc (next_block F))) =
     (if isVoidTy (Insts F MO) then Terminator (Blocks F (Parent (Insts F MO)))
      else subst_term (Inst MO) (Inst (next_inst F)) (Terminator (Blocks F (Parent (Insts F MO)))))"
proof -
  let ?F4 = "fst (rewrite_split F MO SV)"
  let ?F5 = "fst (rewrite_phi ?F4 MO (next_block F) (Suc (next_block F)))"
  let ?F7 = "rewrite_md ?F5 MO VDs s"
  let ?FU = "(?F7, [] :: (nat \<times> nat) list)"
  have "Blocks (fst (case_loop MO (Parent (Insts F MO)) (next_block F) (Suc (next_block F))
           (the_phi F MO) (SizeIds s) ?FU)) (Suc (next_block F)) = Blocks ?F7 (Suc (next_block F))"
    using case_loop_Blocks_old [of "Suc (next_block F)" ?FU "Parent (Insts F MO)"] assms by simp
  then show ?thesis
    unfolding perform_rewrite_eq using assms
    by (simp add: rewrite_phi_Terminator rewrite_split_merge)
qed

lemma zip_upt_snd:
  "(c, b) \<in> set (zip Ids [m ..< m + length Ids]) \<Longrightarrow> \<exists>k<length Ids. b = m + k"
proof -
  assume "(c, b) \<in> set (zip Ids [m ..< m + length Ids])"
  then have "b \<in> set [m ..< m + length Ids]" by (rule set_zip_rightD)
  then have "m \<le> b" "b < m + length Ids" by simp_all
  then have "b - m < length Ids" "b = m + (b - m)" by simp_all
  then show ?thesis by blast
qed

text \<open>
  Claim C6. After every successful rewrite (the block of the call being a block of the
  function), the head block ends in a switch, the default block of the switch branches
  to a merge block, every case block branches to the same merge block, and the
  frequency recorded for the merge block is the frequency the block of the call had
  before it was split.
\<close>

theorem merge_block_frequency:
  assumes "perform cfg F MO = Inr (True, F')" and "Parent (Insts F MO) < next_block F"
  shows "\<exists>SizeVar DefaultBB MergeBB cases weights.
           Terminator (Blocks F' (Parent (Insts F MO))) = Switch SizeVar DefaultBB cases weights \<and>
           Terminator (Blocks F' DefaultBB) = Br MergeBB \<and>
           (\<forall>CaseBB \<in> snd ` set cases. Terminator (Blocks F' CaseBB) = Br MergeBB) \<and>
           BlockFreq F' MergeBB = BlockFreq F (Parent (Insts F MO))"
proof -
  from assms(1) obtain VDs A s SV where F': "F' = perform_rewrite F MO SV VDs A s"
    by (rule perform_TrueE)
  let ?D = "next_block F" and ?M = "Suc (next_block F)"
  let ?cases = "zip (SizeIds s) [next_block F + 2 ..< next_block F + 2 + length (SizeIds s)]"
  have "Terminator (Blocks F' CaseBB) = Br ?M" if "CaseBB \<in> snd ` set ?cases" for CaseBB
  proof -
    from that obtain c where "(c, CaseBB) \<in> set ?cases" by auto
    then obtain k where "k < length (SizeIds s)" "CaseBB = next_block F + 2 + k"
      using zip_upt_snd [of c CaseBB "SizeIds s" "next_block F + 2"] by auto
    then show ?thesis
      unfolding F' using rewrite_case_block(1) [OF assms(2)] by simp
  qed
  moreover note rewrite_switch [OF assms(2), of SV VDs A s, folded F']
    rewrite_default [OF assms(2), of SV VDs A s, folded F']
  moreover have "BlockFreq F' ?M = BlockFreq F (Parent (Insts F MO))"
    unfolding F' by (simp add: rewrite_BlockFreq)
  ultimately show ?thesis by blast
qed

lemma scenario_plan_loop:
  "plan_loop scenario_config 10000 10000 scenario_samples (plan_init 10000 10000) = Inr scenario_plan"
  by (simp add: scenario_config_def scenario_samples_def plan_init_def skipped_def
      isProfitable_def accept_def scenario_plan_def)

lemma scenario_perform:
  assumes "cls = MemIntrinsic Intrinsic_memcpy \<or> cls = CallInst (Some LibFunc_memcmp)"
  shows "perform scenario_config (call_site cls void scenario_samples 10000) 1 =
     Inr (True, perform_rewrite (call_site cls void scenario_samples 10000) 1 (Inst 0)
                  scenario_samples 10000 scenario_plan)"
proof (rule perform_rewritten [where MD = "\<lparr>Kind = IPVK_MemOPSize, TotalC = 10000, ValueData = scenario_samples\<rparr>"])
  show "plan_loop scenario_config 10000
     (TotalC \<lparr>Kind = IPVK_MemOPSize, TotalC = 10000, ValueData = scenario_samples\<rparr>)
     scenario_samples
     (plan_init 10000 (TotalC \<lparr>Kind = IPVK_MemOPSize, TotalC = 10000, ValueData = scenario_samples\<rparr>)) =
    Inr scenario_plan"
    using scenario_plan_loop by simp
qed (use assms in \<open>auto simp: call_site_def isMemmove_def isMemcmp_def isBcmp_def scenario_config_def
      scenario_samples_def scenario_plan_def getLength_def getArgOperand_def\<close>)

theorem merge_block_frequency_witness:
  "perform scenario_config copy_site 1 = Inr (True, copy_rewritten) \<and>
   Parent (Insts copy_site 1) < next_block copy_site \<and>
   (\<exists>SizeVar DefaultBB MergeBB cases weights.
      Terminator (Blocks copy_rewritten (Parent (Insts copy_site 1))) =
        Switch SizeVar DefaultBB cases weights \<and>
      Terminator (Blocks copy_rewritten DefaultBB) = Br MergeBB \<and>
      (\<forall>CaseBB \<in> snd ` set cases. Terminator (Blocks copy_rewritten CaseBB) = Br MergeBB) \<and>
      BlockFreq copy_rewritten MergeBB = BlockFreq copy_site (Parent (Insts copy_site 1))) \<and>
   BlockFreq copy_site (Parent (Insts copy_site 1)) = 64"
proof -
  have p: "perform scenario_config copy_site 1 = Inr (True, copy_rewritten)"
    unfolding copy_site_def copy_rewritten_def by (rule scenario_perform) simp
  have b: "Parent (Insts copy_site 1) < next_block copy_site"
    and v: "BlockFreq copy_site (Parent (Insts copy_site 1)) = 64"
    by (simp_all add: copy_site_def call_site_def)
  from merge_block_frequency [OF p b] p b v show ?thesis by blast
qed

text \<open>
  Claim C10. After a successful rewrite of a call that returns a value (the call and its
  block being allocated in the function), the merge block holds a phi node whose
  incoming blocks are the default block followed by the case blocks of the switch, all
  distinct; its incoming value from the default block is the result of the original
  call, and its incoming value from each case block is the clone that is the single
  instruction of that block, a copy of the call with the size replaced by the constant
  of the case. Every use of the result that existed before the rewrite, in an
  instruction or in a terminator, has become a use of the phi node, and the phi node is
  the only instruction left that uses the result of the original call.
\<close>

theorem phi_merges_results:
  assumes "perform cfg F MO = Inr (True, F')" and "\<not> isVoidTy (Insts F MO)"
    and "MO < next_inst F" and "Parent (Insts F MO) < next_block F"
  shows "\<exists>SizeVar DefaultBB MergeBB cases weights PHI.
     Terminator (Blocks F' (Parent (Insts F MO))) = Switch SizeVar DefaultBB cases weights \<and>
     Terminator (Blocks F' DefaultBB) = Br MergeBB \<and>
     PHI \<in> set (BBInsts (Blocks F' MergeBB)) \<and>
     iclass (Insts F' PHI) = PHINode \<and>
     incoming_blocks (Insts F' PHI) = DefaultBB # map snd cases \<and>
     distinct (DefaultBB # map snd cases) \<and>
     length (operands (Insts F' PHI)) = Suc (length cases) \<and>
     operands (Insts F' PHI) ! 0 = Inst MO \<and>
     (\<forall>k<length cases. \<exists>NewMO.
         operands (Insts F' PHI) ! Suc k = Inst NewMO \<and>
         BBInsts (Blocks F' (snd (cases ! k))) = [NewMO] \<and>
         Terminator (Blocks F' (snd (cases ! k))) = Br MergeBB \<and>
         operands (Insts F' NewMO) = (operands (Insts F' MO))[2 := ConstantInt (fst (cases ! k))]) \<and>
     (\<forall>i. Inst MO \<in> set (operands (Insts F' i)) \<longrightarrow> i = PHI) \<and>
     (\<forall>b. Inst MO \<notin> set (term_uses (Terminator (Blocks F' b)))) \<and>
     (\<forall>i<next_inst F.
         operands (Insts F' i) = map (subst_val (Inst MO) (Inst PHI)) (operands (Insts F i))) \<and>
     (\<forall>b<next_block F. b \<noteq> Parent (Insts F MO) \<longrightarrow>
         Terminator (Blocks F' b) = subst_term (Inst MO) (Inst PHI) (Terminator (Blocks F b))) \<and>
     Terminator (Blocks F' MergeBB) =
       subst_term (Inst MO) (Inst PHI) (Terminator (Blocks F (Parent (Insts F MO))))"
proof -
  note upt_Suc [simp del]
  from assms(1) obtain VDs A s SV where F': "F' = perform_rewrite F MO SV VDs A s"
    by (rule perform_TrueE)
  let ?n = "length (SizeIds s)"
  let ?D = "next_block F" and ?M = "Suc (next_block F)" and ?P = "next_inst F"
  let ?bs = "[next_block F + 2 ..< next_block F + 2 + ?n]"
  let ?cases = "zip (SizeIds s) ?bs"
  have len: "length ?cases = ?n" by (simp del: upt_Suc)
  have snd: "map snd ?cases = ?bs" by (rule map_snd_zip) (simp del: upt_Suc)
  note nv = assms(2) and MO = assms(3) and BB = assms(4)
  note phi = rewrite_phi_node [OF MO nv, of SV VDs A s, folded F']
  have 1: "Terminator (Blocks F' (Parent (Insts F MO))) =
      Switch (subst_val (Inst MO) (Inst ?P) SV) ?D ?cases
        (Some ((CaseCounts s)[0 := RemainCount s],
               if MaxCount s < RemainCount s then RemainCount s else MaxCount s))"
    using rewrite_switch [OF BB, of SV VDs A s] nv by (simp add: F')
  have 2: "Terminator (Blocks F' ?D) = Br ?M"
    using rewrite_default [OF BB] by (simp add: F')
  have 3: "?P \<in> set (BBInsts (Blocks F' ?M))"
    using rewrite_phi_in_merge [OF BB nv] by (simp add: F')
  have 4: "iclass (Insts F' ?P) = PHINode" by (simp add: phi)
  have 5: "incoming_blocks (Insts F' ?P) = ?D # map snd ?cases" unfolding snd phi by simp
  have 6: "distinct (?D # map snd ?cases)" unfolding snd by (simp del: upt_Suc)
  have 7: "length (operands (Insts F' ?P)) = Suc (length ?cases)" by (simp add: phi)
  have 8: "operands (Insts F' ?P) ! 0 = Inst MO" by (simp add: phi)
  have 9: "\<exists>NewMO. operands (Insts F' ?P) ! Suc k = Inst NewMO \<and>
         BBInsts (Blocks F' (snd (?cases ! k))) = [NewMO] \<and>
         Terminator (Blocks F' (snd (?cases ! k))) = Br ?M \<and>
         operands (Insts F' NewMO) = (operands (Insts F' MO))[2 := ConstantInt (fst (?cases ! k))]"
    if "k < length ?cases" for k
  proof -
    from that have k: "k < ?n" by simp
    have c: "?cases ! k = (SizeIds s ! k, next_block F + 2 + k)" using k by simp
    have "operands (Insts F' ?P) ! Suc k = Inst (next_inst F + 1 + k)"
      using k by (simp add: phi)
    moreover have "BBInsts (Blocks F' (snd (?cases ! k))) = [next_inst F + 1 + k]"
      unfolding c using rewrite_case_block(2) [OF BB k, of SV VDs A] nv by (simp add: F')
    moreover have "Terminator (Blocks F' (snd (?cases ! k))) = Br ?M"
      unfolding c using rewrite_case_block(1) [OF BB k, of SV VDs A] by (simp add: F')
    moreover have "operands (Insts F' (next_inst F + 1 + k)) =
        (operands (Insts F' MO))[2 := ConstantInt (fst (?cases ! k))]"
      unfolding c using rewrite_clone(1) [OF MO k, of SV VDs A] nv by (simp add: F')
    ultimately show ?thesis by blast
  qed
  have 10: "i = ?P" if "Inst MO \<in> set (operands (Insts F' i))" for i
    using that rewrite_no_use [OF MO nv, of i SV VDs A s] by (auto simp: F')
  have 11: "Inst MO \<notin> set (term_uses (Terminator (Blocks F' b)))" for b
    unfolding F' by (rule rewrite_no_term_use [OF MO nv BB])
  have 12: "operands (Insts F' i) = map (subst_val (Inst MO) (Inst ?P)) (operands (Insts F i))"
    if "i < next_inst F" for i
    using rewrite_old_operands [OF that, of MO SV VDs A s] nv by (simp add: F')
  have 13: "Terminator (Blocks F' b) = subst_term (Inst MO) (Inst ?P) (Terminator (Blocks F b))"
    if "b < next_block F" "b \<noteq> Parent (Insts F MO)" for b
    using rewrite_old_terminator [OF that, of SV VDs A s] nv by (simp add: F')
  have 14: "Terminator (Blocks F' ?M) =
       subst_term (Inst MO) (Inst ?P) (Terminator (Blocks F (Parent (Insts F MO))))"
    using rewrite_merge_terminator [OF BB, of SV VDs A s] nv by (simp add: F')
  from 1 2 3 4 5 6 7 8 9 10 11 12 13 14 show ?thesis by blast
qed

theorem phi_merges_results_witness:
  "perform scenario_config memcmp_site 1 = Inr (True, memcmp_rewritten) \<and>
   \<not> isVoidTy (Insts memcmp_site 1) \<and> 1 < next_inst memcmp_site \<and>
   Parent (Insts memcmp_site 1) < next_block memcmp_site \<and>
   (\<exists>SizeVar DefaultBB MergeBB cases weights PHI.
     Terminator (Blocks memcmp_rewritten (Parent (Insts memcmp_site 1))) =
       Switch SizeVar DefaultBB cases weights \<and>
     Terminator (Blocks memcmp_rewritten DefaultBB) = Br MergeBB \<and>
     PHI \<in> set (BBInsts (Blocks memcmp_rewritten MergeBB)) \<and>
     iclass (Insts memcmp_rewritten PHI) = PHINode \<and>
     incoming_blocks (Insts memcmp_rewritten PHI) = DefaultBB # map snd cases \<and>
     distinct (DefaultBB # map snd cases) \<and>
     length (operands (Insts memcmp_rewritten PHI)) = Suc (length cases) \<and>
     operands (Insts memcmp_rewritten PHI) ! 0 = Inst 1 \<and>
     (\<forall>k<length cases. \<exists>NewMO.
         operands (Insts memcmp_rewritten PHI) ! Suc k = Inst NewMO \<and>
         BBInsts (Blocks memcmp_rewritten (snd (cases ! k))) = [NewMO] \<and>
         Terminator (Blocks memcmp_rewritten (snd (cases ! k))) = Br MergeBB \<and>
         operands (Insts memcmp_rewritten NewMO) =
           (operands (Insts memcmp_rewritten 1))[2 := ConstantInt (fst (cases ! k))]) \<and>
     (\<forall>i. Inst 1 \<in> set (operands (Insts memcmp_rewritten i)) \<longrightarrow> i = PHI) \<and>
     (\<forall>b. Inst 1 \<notin> set (term_uses (Terminator (Blocks memcmp_rewritten b)))) \<and>
     (\<forall>i<next_inst memcmp_site.
         operands (Insts memcmp_rewritten i) =
           map (subst_val (Inst 1) (Inst PHI)) (operands (Insts memcmp_site i))) \<and>
     (\<forall>b<next_block memcmp_site. b \<noteq> Parent (Insts memcmp_site 1) \<longrightarrow>
         Terminator (Blocks memcmp_rewritten b) =
           subst_term (Inst 1) (Inst PHI) (Terminator (Blocks memcmp_site b))) \<and>
     Terminator (Blocks memcmp_rewritten MergeBB) =
       subst_term (Inst 1) (Inst PHI) (Terminator (Blocks memcmp_site (Parent (Insts memcmp_site 1)))))"
proof -
  have p: "perform scenario_config memcmp_site 1 = Inr (True, memcmp_rewritten)"
    unfolding memcmp_site_def memcmp_rewritten_def by (rule scenario_perform) simp
  have h: "\<not> isVoidTy (Insts memcmp_site 1)" "1 < next_inst memcmp_site"
    "Parent (Insts memcmp_site 1) < next_block memcmp_site"
    by (simp_all add: memcmp_site_def call_site_def)
  from phi_merges_results [OF p h] p h show ?thesis by blast
qed

lemma copy_scenario_plan:
  assumes "MemOPCountThreshold cfg = 1000" and "MemOPPercentThreshold cfg = 40"
    and "MemOPMaxVersion cfg = 3" and "\<not> MemOPScaleCount cfg"
    and "\<not> skipped cfg 16" and "\<not> skipped cfg 32" and "skipped cfg other"
  shows "plan_loop cfg 10000 10000
           [\<lparr>Value = 16, Count = 6000\<rparr>, \<lparr>Value = 32, Count = 3000\<rparr>, \<lparr>Value = other, Count = 1000\<rparr>]
           (plan_init 10000 10000) = Inr scenario_plan"
  using assms
  by (simp add: plan_init_def isProfitable_def accept_def scenario_plan_def)

text \<open>
  Claim C5. For a \<^verbatim>\<open>memcpy\<close> call with raw total 10000 and records (16, 6000),
  (32, 3000) and a third of count 1000 whose value fails the filter, under count
  threshold 1000, percent threshold 40, at most 3 versions and no scaling, the loop
  selects sizes 16 and 32 with counts 6000 and 3000 and leaves 1000 for the default
  case. \<^verbatim>\<open>perform\<close> rewrites the call: the switch of the head block has the default
  block as default and exactly the two cases 16 and 32, its weights are computed from
  the counts 1000, 6000, 3000 with maximum 6000, each case block holds a clone of the
  call with the constant size and branches to the merge block, and four blocks are new:
  the default block, the merge block and the two case blocks.
\<close>

theorem copy_scenario:
  assumes "iclass (Insts F MO) = MemIntrinsic Intrinsic_memcpy"
    and "MD_prof (Insts F MO) =
           Some \<lparr>Kind = IPVK_MemOPSize, TotalC = 10000,
                 ValueData = [\<lparr>Value = 16, Count = 6000\<rparr>, \<lparr>Value = 32, Count = 3000\<rparr>,
                              \<lparr>Value = other, Count = 1000\<rparr>]\<rparr>"
    and "MemOPCountThreshold cfg = 1000" and "MemOPPercentThreshold cfg = 40"
    and "MemOPMaxVersion cfg = 3" and "\<not> MemOPScaleCount cfg"
    and "\<not> skipped cfg 16" and "\<not> skipped cfg 32" and "skipped cfg other"
    and "getLength (Insts F MO) = Inr SizeVar"
    and "MO < next_inst F" and "Parent (Insts F MO) < next_block F"
  shows "plan_loop cfg 10000 10000
           [\<lparr>Value = 16, Count = 6000\<rparr>, \<lparr>Value = 32, Count = 3000\<rparr>, \<lparr>Value = other, Count = 1000\<rparr>]
           (plan_init 10000 10000) =
         Inr \<lparr>RemainCount = 1000, SavedRemainCount = 1000, SizeIds = [16, 32],
              CaseCounts = [0, 6000, 3000], MaxCount = 6000, Version = 2\<rparr> \<and>
    (\<exists>F' c c16 c32.
       perform cfg F MO = Inr (True, F') \<and>
       Terminator (Blocks F' (Parent (Insts F MO))) =
         Switch c (next_block F) [(16, next_block F + 2), (32, next_block F + 3)]
           (Some ([1000, 6000, 3000], 6000)) \<and>
       Terminator (Blocks F' (next_block F)) = Br (next_block F + 1) \<and>
       Blocks F' (next_block F + 2) = \<lparr>BBInsts = [c16], Terminator = Br (next_block F + 1)\<rparr> \<and>
       Blocks F' (next_block F + 3) = \<lparr>BBInsts = [c32], Terminator = Br (next_block F + 1)\<rparr> \<and>
       operands (Insts F' c16) = (operands (Insts F' MO))[2 := ConstantInt 16] \<and>
       operands (Insts F' c32) = (operands (Insts F' MO))[2 := ConstantInt 32] \<and>
       iclass (Insts F' c16) = MemIntrinsic Intrinsic_memcpy \<and>
       iclass (Insts F' c32) = MemIntrinsic Intrinsic_memcpy \<and>
       next_block F' = next_block F + 4)"
proof -
  let ?VDs = "[\<lparr>Value = 16, Count = 6000\<rparr>, \<lparr>Value = 32, Count = 3000\<rparr>, \<lparr>Value = other, Count = 1000\<rparr>]"
  let ?MD = "\<lparr>Kind = IPVK_MemOPSize, TotalC = 10000, ValueData = ?VDs\<rparr>"
  let ?F' = "perform_rewrite F MO SizeVar ?VDs 10000 scenario_plan"
  let ?i = "next_inst F + (if isVoidTy (Insts F MO) then 0 else 1)"
  note BB = assms(12) and MO = assms(11)
  have pl: "plan_loop cfg 10000 10000 ?VDs (plan_init 10000 10000) = Inr scenario_plan"
    by (rule copy_scenario_plan [OF assms(3-9)])
  have p: "perform cfg F MO = Inr (True, ?F')"
  proof (rule perform_rewritten [where MD = ?MD])
    show "plan_loop cfg 10000 (TotalC ?MD) ?VDs (plan_init 10000 (TotalC ?MD)) = Inr scenario_plan"
      using pl by simp
  qed (use assms in \<open>auto simp: isMemmove_def isMemcmp_def isBcmp_def scenario_plan_def\<close>)
  have n: "length (SizeIds scenario_plan) = 2" "SizeIds scenario_plan = [16, 32]"
    by (simp_all add: scenario_plan_def)
  have k: "0 < length (SizeIds scenario_plan)" "1 < length (SizeIds scenario_plan)"
    by (simp_all add: n)
  have sw: "Terminator (Blocks ?F' (Parent (Insts F MO))) =
      Switch (if isVoidTy (Insts F MO) then SizeVar else subst_val (Inst MO) (Inst (next_inst F)) SizeVar)
        (next_block F) [(16, next_block F + 2), (32, next_block F + 3)]
        (Some ([1000, 6000, 3000], 6000))"
    unfolding rewrite_switch [OF BB] n by (simp add: scenario_plan_def upt_rec)
  have d: "Terminator (Blocks ?F' (next_block F)) = Br (next_block F + 1)"
    using rewrite_default [OF BB] by simp
  have b16: "Blocks ?F' (next_block F + 2) = \<lparr>BBInsts = [?i], Terminator = Br (next_block F + 1)\<rparr>"
    using rewrite_case_block [OF BB k(1), of SizeVar ?VDs 10000]
    by (intro basic_block.equality) simp_all
  have b32: "Blocks ?F' (next_block F + 3) = \<lparr>BBInsts = [?i + 1], Terminator = Br (next_block F + 1)\<rparr>"
    using rewrite_case_block [OF BB k(2), of SizeVar ?VDs 10000]
    by (intro basic_block.equality) (simp_all add: numeral_3_eq_3)
  have o16: "operands (Insts ?F' ?i) = (operands (Insts ?F' MO))[2 := ConstantInt 16]"
    "iclass (Insts ?F' ?i) = MemIntrinsic Intrinsic_memcpy"
    using rewrite_clone [OF MO k(1), of SizeVar ?VDs 10000] assms(1) by (simp_all add: n)
  have o32: "operands (Insts ?F' (?i + 1)) = (operands (Insts ?F' MO))[2 := ConstantInt 32]"
    "iclass (Insts ?F' (?i + 1)) = MemIntrinsic Intrinsic_memcpy"
    using rewrite_clone [OF MO k(2), of SizeVar ?VDs 10000] assms(1) by (simp_all add: n)
  have nb: "next_block ?F' = next_block F + 4"
    by (simp add: rewrite_next_block n)
  from pl have "plan_loop cfg 10000 10000 ?VDs (plan_init 10000 10000) =
         Inr \<lparr>RemainCount = 1000, SavedRemainCount = 1000, SizeIds = [16, 32],
              CaseCounts = [0, 6000, 3000], MaxCount = 6000, Version = 2\<rparr>"
    by (simp add: scenario_plan_def)
  with p sw d b16 b32 o16 o32 nb show ?thesis by blast
qed

theorem copy_scenario_witness:
  "(iclass (Insts copy_site 1) = MemIntrinsic Intrinsic_memcpy \<and>
    MD_prof (Insts copy_site 1) =
      Some \<lparr>Kind = IPVK_MemOPSize, TotalC = 10000,
            ValueData = [\<lparr>Value = 16, Count = 6000\<rparr>, \<lparr>Value = 32, Count = 3000\<rparr>,
                         \<lparr>Value = 1000, Count = 1000\<rparr>]\<rparr> \<and>
    MemOPCountThreshold scenario_config = 1000 \<and> MemOPPercentThreshold scenario_config = 40 \<and>
    MemOPMaxVersion scenario_config = 3 \<and> \<not> MemOPScaleCount scenario_config \<and>
    \<not> skipped scenario_config 16 \<and> \<not> skipped scenario_config 32 \<and> skipped scenario_config 1000 \<and>
    getLength (Insts copy_site 1) = Inr (Inst 0) \<and>
    1 < next_inst copy_site \<and> Parent (Insts copy_site 1) < next_block copy_site) \<and>
   plan_loop scenario_config 10000 10000
       [\<lparr>Value = 16, Count = 6000\<rparr>, \<lparr>Value = 32, Count = 3000\<rparr>, \<lparr>Value = 1000, Count = 1000\<rparr>]
       (plan_init 10000 10000) =
     Inr \<lparr>RemainCount = 1000, SavedRemainCount = 1000, SizeIds = [16, 32],
          CaseCounts = [0, 6000, 3000], MaxCount = 6000, Version = 2\<rparr> \<and>
   (\<exists>F' c c16 c32.
      perform scenario_config copy_site 1 = Inr (True, F') \<and>
      Terminator (Blocks F' (Parent (Insts copy_site 1))) =
        Switch c (next_block copy_site)
          [(16, next_block copy_site + 2), (32, next_block copy_site + 3)]
          (Some ([1000, 6000, 3000], 6000)) \<and>
      Terminator (Blocks F' (next_block copy_site)) = Br (next_block copy_site + 1) \<and>
      Blocks F' (next_block copy_site + 2) =
        \<lparr>BBInsts = [c16], Terminator = Br (next_block copy_site + 1)\<rparr> \<and>
      Blocks F' (next_block copy_site + 3) =
        \<lparr>BBInsts = [c32], Terminator = Br (next_block copy_site + 1)\<rparr> \<and>
      operands (Insts F' c16) = (operands (Insts F' 1))[2 := ConstantInt 16] \<and>
      operands (Insts F' c32) = (operands (Insts F' 1))[2 := ConstantInt 32] \<and>
      iclass (Insts F' c16) = MemIntrinsic Intrinsic_memcpy \<and>
      iclass (Insts F' c32) = MemIntrinsic Intrinsic_memcpy \<and>
      next_block F' = next_block copy_site + 4) \<and>
   Parent (Insts copy_site 1) = 0 \<and> next_block copy_site = 1"
proof -
  have h: "iclass (Insts copy_site 1) = MemIntrinsic Intrinsic_memcpy"
    "MD_prof (Insts copy_site 1) =
      Some \<lparr>Kind = IPVK_MemOPSize, TotalC = 10000,
            ValueData = [\<lparr>Value = 16, Count = 6000\<rparr>, \<lparr>Value = 32, Count = 3000\<rparr>,
                         \<lparr>Value = 1000, Count = 1000\<rparr>]\<rparr>"
    "MemOPCountThreshold scenario_config = 1000" "MemOPPercentThreshold scenario_config = 40"
    "MemOPMaxVersion scenario_config = 3" "\<not> MemOPScaleCount scenario_config"
    "\<not> skipped scenario_config 16" "\<not> skipped scenario_config 32" "skipped scenario_config 1000"
    "getLength (Insts copy_site 1) = Inr (Inst 0)"
    "1 < next_inst copy_site" "Parent (Insts copy_site 1) < next_block copy_site"
    by (simp_all add: copy_site_def call_site_def scenario_samples_def scenario_config_def skipped_def
        getLength_def getArgOperand_def)
  have v: "Parent (Insts copy_site 1) = 0" "next_block copy_site = 1"
    by (simp_all add: copy_site_def call_site_def)
  from copy_scenario [OF h] h v show ?thesis by blast
qed

section \<open>Where the code departs from its description\<close>

lemma accept_Version: "Version (accept V C raw s) = Suc (Version s)"
  by (simp add: accept_def)

text \<open>The number of versions is at most the number of records that pass the filter,
  and at most one more than \<^verbatim>\<open>MemOPMaxVersion\<close> when that is not zero.\<close>

lemma plan_version_le_passing:
  "plan_loop cfg A T VDs s = Inr s' \<Longrightarrow>
   Version s' \<le> Version s + length (filter (\<lambda>VD. \<not> skipped cfg (Value VD)) VDs)"
proof (induction VDs arbitrary: s)
  case Nil
  then show ?case by simp
next
  case (Cons VD VDs)
  show ?case
  proof (cases "skipped cfg (Value VD)")
    case True
    with Cons.prems have "plan_loop cfg A T VDs s = Inr s'"
      by (auto split: sum.splits if_splits)
    from Cons.IH [OF this] True show ?thesis by simp
  next
    case False
    with Cons.prems obtain C where
      "s' = s \<or> s' = accept (Value VD) C (Count VD) s \<or>
       plan_loop cfg A T VDs (accept (Value VD) C (Count VD) s) = Inr s'"
      by (auto simp: Let_def split: sum.splits if_splits bool.splits)
    then show ?thesis
      using Cons.IH [of "accept (Value VD) C (Count VD) s"] False
      by (auto simp: accept_Version)
  qed
qed

lemma plan_version_le_max:
  "plan_loop cfg A T VDs s = Inr s' \<Longrightarrow> MemOPMaxVersion cfg \<noteq> 0 \<Longrightarrow>
   Version s \<le> unat (MemOPMaxVersion cfg) \<Longrightarrow> Version s' \<le> unat (MemOPMaxVersion cfg) + 1"
proof (induction VDs arbitrary: s)
  case Nil
  then show ?case by simp
next
  case (Cons VD VDs)
  show ?case
  proof (cases "skipped cfg (Value VD)")
    case True
    with Cons.prems have "plan_loop cfg A T VDs s = Inr s'"
      by (auto split: sum.splits if_splits)
    from Cons.IH [OF this Cons.prems(2,3)] show ?thesis .
  next
    case False
    with Cons.prems(1) obtain C where
      "s' = s \<or> s' = accept (Value VD) C (Count VD) s \<or>
       (\<not> unat (MemOPMaxVersion cfg) < Suc (Version s) \<and>
        plan_loop cfg A T VDs (accept (Value VD) C (Count VD) s) = Inr s')"
      using Cons.prems(2)
      by (auto simp: Let_def accept_Version split: sum.splits if_splits bool.splits)
    then show ?thesis
      using Cons.IH [of "accept (Value VD) C (Count VD) s"] Cons.prems(2,3)
      by (auto simp: accept_Version)
  qed
qed

lemma four_plan_loop:
  "plan_loop scenario_config 10000 10000 four_samples (plan_init 10000 10000) = Inr four_plan"
  by (simp add: scenario_config_def four_samples_def plan_init_def skipped_def
      isProfitable_def accept_def four_plan_def)

text \<open>
  Claim C1. With \<^verbatim>\<open>MemOPMaxVersion\<close> 3 and four records (1, 5000), (2, 2500), (4, 1250),
  (8, 1000) of raw total 10000, each of which passes the filter and the profitability
  test, \<^verbatim>\<open>perform\<close> creates four case blocks: line 404 compares the incremented
  \<open>Version\<close> with \<^verbatim>\<open>>\<close>, so the loop stops only after one version more than the
  maximum.
\<close>

theorem max_version_exceeded:
  "MemOPMaxVersion scenario_config = 3 \<and>
   perform scenario_config four_site 1 = Inr (True, four_rewritten) \<and>
   Terminator (Blocks four_rewritten 0) =
     Switch (Inst 0) 1 [(1, 3), (2, 4), (4, 5), (8, 6)] (Some ([250, 5000, 2500, 1250, 1000], 5000)) \<and>
   length (switch_cases (Terminator (Blocks four_rewritten 0))) = 4"
proof -
  let ?MD = "\<lparr>Kind = IPVK_MemOPSize, TotalC = 10000, ValueData = four_samples\<rparr>"
  have p: "perform scenario_config four_site 1 = Inr (True, four_rewritten)"
    unfolding four_rewritten_def
  proof (rule perform_rewritten [where MD = ?MD])
    show "plan_loop scenario_config 10000 (TotalC ?MD) four_samples (plan_init 10000 (TotalC ?MD)) =
      Inr four_plan"
      using four_plan_loop by simp
  qed (auto simp: four_site_def call_site_def isMemmove_def isMemcmp_def isBcmp_def scenario_config_def
      four_samples_def four_plan_def getLength_def getArgOperand_def)
  have b: "Parent (Insts four_site 1) < next_block four_site"
    by (simp add: four_site_def call_site_def)
  have v: "Parent (Insts four_site 1) = 0" "next_block four_site = 1" "isVoidTy (Insts four_site 1)"
    by (simp_all add: four_site_def call_site_def)
  have sw: "Terminator (Blocks four_rewritten 0) =
     Switch (Inst 0) 1 [(1, 3), (2, 4), (4, 5), (8, 6)] (Some ([250, 5000, 2500, 1250, 1000], 5000))"
    using rewrite_switch [OF b, of "Inst 0" four_samples 10000 four_plan] v
    by (simp add: four_rewritten_def four_plan_def upt_rec)
  have "MemOPMaxVersion scenario_config = 3" by (simp add: scenario_config_def)
  with p sw show ?thesis by simp
qed

lemma first_run_plan_loop:
  "plan_loop scenario_config 9000 9000 skipped_first_samples (plan_init 9000 9000) = Inr first_run_plan"
  by (simp add: scenario_config_def skipped_first_samples_def plan_init_def skipped_def
      isProfitable_def accept_def first_run_plan_def)

lemma second_run_plan_loop:
  "plan_loop scenario_config 5000 5000 [\<lparr>Value = 16, Count = 4000\<rparr>] (plan_init 5000 5000) =
     Inr second_run_plan"
  by (simp add: scenario_config_def plan_init_def skipped_def
      isProfitable_def accept_def second_run_plan_def)

text \<open>
  Claim C2. With records (17, 5000), (16, 4000) of raw total 9000, the first is skipped
  by the filter and the second is promoted. Line 472 writes back the records from
  index \<open>Version\<close> on, here (16, 4000), the promoted one, with total 5000. A second run
  of \<^verbatim>\<open>perform\<close> on the default call promotes size 16 again.
\<close>

theorem promoted_value_written_back:
  "perform scenario_config skipped_first_site 1 = Inr (True, first_run) \<and>
   switch_cases (Terminator (Blocks first_run 0)) = [(16, 3)] \<and>
   MD_prof (Insts first_run 1) =
     Some \<lparr>Kind = IPVK_MemOPSize, TotalC = 5000, ValueData = [\<lparr>Value = 16, Count = 4000\<rparr>]\<rparr> \<and>
   perform scenario_config first_run 1 = Inr (True, second_run) \<and>
   Parent (Insts first_run 1) = 1 \<and>
   switch_cases (Terminator (Blocks second_run 1)) = [(16, 6)]"
proof -
  let ?MD = "\<lparr>Kind = IPVK_MemOPSize, TotalC = 9000, ValueData = skipped_first_samples\<rparr>"
  let ?MD' = "\<lparr>Kind = IPVK_MemOPSize, TotalC = 5000, ValueData = [\<lparr>Value = 16, Count = 4000\<rparr>]\<rparr>"
  have p1: "perform scenario_config skipped_first_site 1 = Inr (True, first_run)"
    unfolding first_run_def
  proof (rule perform_rewritten [where MD = ?MD])
    show "plan_loop scenario_config 9000 (TotalC ?MD) skipped_first_samples
        (plan_init 9000 (TotalC ?MD)) = Inr first_run_plan"
      using first_run_plan_loop by simp
  qed (auto simp: skipped_first_site_def call_site_def isMemmove_def isMemcmp_def isBcmp_def
      scenario_config_def skipped_first_samples_def first_run_plan_def getLength_def getArgOperand_def)
  have site: "Parent (Insts skipped_first_site 1) = 0" "next_block skipped_first_site = 1"
    "next_inst skipped_first_site = 3" "isVoidTy (Insts skipped_first_site 1)"
    "iclass (Insts skipped_first_site 1) = MemIntrinsic Intrinsic_memcpy"
    "operands (Insts skipped_first_site 1) = [OtherValue 0, OtherValue 1, Inst 0]"
    "BBInsts (Blocks skipped_first_site 0) = [0, 1, 2]"
    by (simp_all add: skipped_first_site_def call_site_def)
  have b: "Parent (Insts skipped_first_site 1) < next_block skipped_first_site"
    and m: "1 < next_inst skipped_first_site"
    by (simp_all add: skipped_first_site_def call_site_def)
  have sw1: "switch_cases (Terminator (Blocks first_run 0)) = [(16, 3)]"
    using rewrite_switch [OF b, of "Inst 0" skipped_first_samples 9000 first_run_plan] site
    by (simp add: first_run_def first_run_plan_def upt_rec)
  have md: "MD_prof (Insts first_run 1) = Some ?MD'"
    unfolding first_run_def rewrite_MD_prof [OF m]
    by (simp add: first_run_plan_def skipped_first_samples_def)
  have f1: "iclass (Insts first_run 1) = MemIntrinsic Intrinsic_memcpy"
    "isVoidTy (Insts first_run 1)"
    "operands (Insts first_run 1) = [OtherValue 0, OtherValue 1, Inst 0]"
    unfolding first_run_def using rewrite_MO_fields [OF m] site by simp_all
  have par: "Parent (Insts first_run 1) = 1"
    unfolding first_run_def
    using rewrite_Parent [of 1 skipped_first_site "Inst 0" skipped_first_samples 9000 first_run_plan] site
    by simp
  have nb: "next_block first_run = 4"
    unfolding first_run_def by (simp add: rewrite_next_block site first_run_plan_def)
  have p2: "perform scenario_config first_run 1 = Inr (True, second_run)"
    unfolding second_run_def
  proof (rule perform_rewritten [where MD = ?MD'])
    show "plan_loop scenario_config 5000 (TotalC ?MD') [\<lparr>Value = 16, Count = 4000\<rparr>]
        (plan_init 5000 (TotalC ?MD')) = Inr second_run_plan"
      using second_run_plan_loop by simp
    show "MD_prof (Insts first_run 1) = Some ?MD'" by (rule md)
  qed (auto simp: f1 [unfolded One_nat_def] isMemmove_def isMemcmp_def isBcmp_def scenario_config_def
      second_run_plan_def getLength_def getArgOperand_def)
  have b2: "Parent (Insts first_run 1) < next_block first_run"
    unfolding par nb by simp
  have sw2: "switch_cases (Terminator (Blocks second_run 1)) = [(16, 6)]"
    using rewrite_switch [OF b2, of "Inst 0" "[\<lparr>Value = 16, Count = 4000\<rparr>]" 5000 second_run_plan]
      par nb f1
    by (simp add: second_run_def second_run_plan_def upt_rec f1 [unfolded One_nat_def]
        par [unfolded One_nat_def])
  from p1 sw1 md p2 par sw2 show ?thesis by blast
qed

section \<open>The collector and the comparison flag\<close>

lemma perform_worklist_comparisons:
  "\<not> MemOPOptMemcmpBcmp cfg \<Longrightarrow>
   \<forall>MO \<in> set WL. isMemcmp (Insts F MO) \<or> isBcmp (Insts F MO) \<Longrightarrow>
   perform_worklist cfg b F WL = Inr (b, F)"
proof (induction WL)
  case Nil
  show ?case by simp
next
  case (Cons MO WL)
  have "perform cfg F MO = Inr (False, F)"
    using Cons.prems by (auto simp: perform_def isMemmove_def isMemcmp_def isBcmp_def)
  with Cons show ?case by simp
qed

text \<open>
  Claim C7, as stated, fails: with comparison specialisation off, a \<^verbatim>\<open>memcmp\<close> call
  with a size that is not a constant is on the work list after \<^verbatim>\<open>perform()\<close>.
\<close>

theorem comparison_collected_with_flag_off:
  "\<not> MemOPOptMemcmpBcmp (scenario_config\<lparr>MemOPOptMemcmpBcmp := False\<rparr>) \<and>
   isMemcmp (Insts memcmp_site 1) \<and>
   getArgOperand (Insts memcmp_site 1) 2 = Inr (Inst 0) \<and> \<not> isConstantInt (Inst 0) \<and>
   perform_all (scenario_config\<lparr>MemOPOptMemcmpBcmp := False\<rparr>) memcmp_site =
     Inr \<lparr>Func = memcmp_site, Changed = False, WorkList = [1]\<rparr>"
proof -
  have v: "visit memcmp_site = Inr [1]"
    by (simp add: visit_def memcmp_site_def call_site_def visitCallInst_def getArgOperand_def
        isConstantInt_def)
  have "perform_worklist (scenario_config\<lparr>MemOPOptMemcmpBcmp := False\<rparr>) False memcmp_site [1] =
      Inr (False, memcmp_site)"
    by (rule perform_worklist_comparisons) (simp_all add: isMemcmp_def memcmp_site_def call_site_def)
  with v show ?thesis
    by (simp add: perform_all_def isMemcmp_def memcmp_site_def call_site_def getArgOperand_def
        isConstantInt_def)
qed

text \<open>
  Claim C7, amended. The collector adds a \<^verbatim>\<open>memcmp\<close> or \<^verbatim>\<open>bcmp\<close> call whose size is not
  a constant to the work list whatever the flag is (it does not read it). With the
  flag off, \<^verbatim>\<open>perform\<close> returns false on such a call and leaves the function as it
  was, so walking the work list does not rewrite it.
\<close>

theorem comparison_filtered_by_perform:
  assumes "isMemcmp (Insts F CI) \<or> isBcmp (Insts F CI)"
    and "getArgOperand (Insts F CI) 2 = Inr L" and "\<not> isConstantInt L"
  shows "visitCallInst WL F CI = Inr (WL @ [CI]) \<and>
         visit_insts WL F (CI # Is) = visit_insts (WL @ [CI]) F Is \<and>
         (\<not> MemOPOptMemcmpBcmp cfg \<longrightarrow>
            perform cfg F CI = Inr (False, F) \<and>
            perform_worklist cfg b F [CI] = Inr (b, F))"
proof -
  have v: "visitCallInst WL F CI = Inr (WL @ [CI])"
    using assms by (auto simp: visitCallInst_def isMemcmp_def isBcmp_def)
  have "visit_insts WL F (CI # Is) = visit_insts (WL @ [CI]) F Is"
    using assms(1) v by (auto simp: isMemcmp_def isBcmp_def)
  moreover have "perform cfg F CI = Inr (False, F)" if "\<not> MemOPOptMemcmpBcmp cfg"
    using that assms(1) by (auto simp: perform_def isMemmove_def isMemcmp_def isBcmp_def)
  moreover have "perform_worklist cfg b F [CI] = Inr (b, F)" if "\<not> MemOPOptMemcmpBcmp cfg"
    using that assms(1) by (intro perform_worklist_comparisons) simp_all
  ultimately show ?thesis using v by blast
qed

theorem comparison_filtered_by_perform_witness:
  "(isMemcmp (Insts memcmp_site 1) \<or> isBcmp (Insts memcmp_site 1)) \<and>
   getArgOperand (Insts memcmp_site 1) 2 = Inr (Inst 0) \<and> \<not> isConstantInt (Inst 0) \<and>
   visitCallInst [] memcmp_site 1 = Inr ([] @ [1]) \<and>
   visit_insts [] memcmp_site (1 # [2]) = visit_insts ([] @ [1]) memcmp_site [2] \<and>
   \<not> MemOPOptMemcmpBcmp (scenario_config\<lparr>MemOPOptMemcmpBcmp := False\<rparr>) \<and>
   perform (scenario_config\<lparr>MemOPOptMemcmpBcmp := False\<rparr>) memcmp_site 1 = Inr (False, memcmp_site) \<and>
   perform_worklist (scenario_config\<lparr>MemOPOptMemcmpBcmp := False\<rparr>) False memcmp_site [1] =
     Inr (False, memcmp_site)"
proof -
  have h: "isMemcmp (Insts memcmp_site 1) \<or> isBcmp (Insts memcmp_site 1)"
    "getArgOperand (Insts memcmp_site 1) 2 = Inr (Inst 0)" "\<not> isConstantInt (Inst 0)"
    by (simp_all add: isMemcmp_def memcmp_site_def call_site_def getArgOperand_def isConstantInt_def)
  have "\<not> MemOPOptMemcmpBcmp (scenario_config\<lparr>MemOPOptMemcmpBcmp := False\<rparr>)" by simp
  with comparison_filtered_by_perform [OF h, of "[]" "[2]"
      "scenario_config\<lparr>MemOPOptMemcmpBcmp := False\<rparr>" False] h
  show ?thesis by blast
qed

end
